theory Spec2Isabelle
  imports Complex_Main "HOL-Library.Multiset"
begin

chapter \<open>The embedding\<close>

section \<open>Tables of the persistent store\<close>

text \<open>
  The tables \<^verbatim>\<open>"Article"\<close> and \<^verbatim>\<open>"UserEvent"\<close> of the initialisation script, one record
  per row. A \<^verbatim>\<open>DOUBLE PRECISION\<close> column is a \<^typ>\<open>real\<close>; a timestamp is a \<^typ>\<open>real\<close>
  number of seconds since the epoch, except \<^verbatim>\<open>publication_date\<close>, which only ever travels
  as its ISO-8601 text. The derived columns \<^verbatim>\<open>location\<close> and \<^verbatim>\<open>search_vector\<close> are functions
  of the other columns and are not stored in the record.
\<close>

record article =
  a_id :: string
  title :: string
  description :: string
  url :: string
  publication_date :: string
  source_name :: string
  category :: "string list"
  relevance_score :: real
  latitude :: real
  longitude :: real

record user_event =
  ue_id :: string
  eventType :: string
  createdAt :: real
  articleId :: string
  userId :: string
  ue_latitude :: real
  ue_longitude :: real

record trending_article = article +
  trending_score :: real

section \<open>The materialized view \<^verbatim>\<open>"TrendingArticles"\<close>\<close>

text \<open>
  The view is the query
  \<^verbatim>\<open>SELECT a.*, COALESCE(SUM(CASE WHEN ue."eventType" = 'click' THEN 1.5 ELSE 1.0 END *
     EXP(-EXTRACT(EPOCH FROM (NOW() - ue."createdAt")) / (3600 * 12))), 0) AS trending_score
   FROM "Article" a LEFT JOIN "UserEvent" ue
     ON a.id = ue."articleId" AND ue."createdAt" > NOW() - INTERVAL '24 hours'
   GROUP BY a.id\<close>
  evaluated at the instant \<open>now\<close> of the refresh. The model follows the query plan: the
  left join yields, for an article, one row per matching event, or a single row with a
  \<^verbatim>\<open>NULL\<close> event (\<^const>\<open>None\<close>) when no event matches; an arithmetic expression over a
  \<^verbatim>\<open>NULL\<close> row is \<^verbatim>\<open>NULL\<close>; \<^verbatim>\<open>SUM\<close> skips \<^verbatim>\<open>NULL\<close> and is \<^verbatim>\<open>NULL\<close> when nothing is left;
  \<^verbatim>\<open>COALESCE\<close> replaces that by its second argument. \<^verbatim>\<open>GROUP BY a.id\<close> makes one output row
  per distinct key, whose article columns are those of the group's rows. An event stamped
  later than \<open>now\<close> would satisfy the join condition too; there is none, since
  \<^verbatim>\<open>"createdAt"\<close> is the clock of the database when the row is inserted.
\<close>

definition join_condition :: "real \<Rightarrow> article \<Rightarrow> user_event \<Rightarrow> bool" where
  "join_condition now a ue \<longleftrightarrow> a_id a = articleId ue \<and> createdAt ue > now - 24 * 3600"

definition join_block :: "real \<Rightarrow> user_event list \<Rightarrow> article \<Rightarrow> (article \<times> user_event option) list" where
  "join_block now ues a =
     (let ms = filter (join_condition now a) ues
      in if ms = [] then [(a, None)] else map (\<lambda>ue. (a, Some ue)) ms)"

definition left_join :: "real \<Rightarrow> article list \<Rightarrow> user_event list \<Rightarrow> (article \<times> user_event option) list" where
  "left_join now as ues = concat (map (join_block now ues) as)"

definition score_term :: "real \<Rightarrow> user_event option \<Rightarrow> real option" where
  "score_term now row =
     (case row of
        None \<Rightarrow> None
      | Some ue \<Rightarrow>
          Some ((if eventType ue = ''click'' then 1.5 else 1.0) *
                exp (- (now - createdAt ue) / (3600 * 12))))"

definition sql_sum :: "real option list \<Rightarrow> real option" where
  "sql_sum vs = (case List.map_filter (\<lambda>v. v) vs of [] \<Rightarrow> None | x # xs \<Rightarrow> Some (sum_list (x # xs)))"

definition coalesce :: "real option \<Rightarrow> real \<Rightarrow> real" where
  "coalesce v d = (case v of None \<Rightarrow> d | Some x \<Rightarrow> x)"

definition group_row :: "real \<Rightarrow> (article \<times> user_event option) list \<Rightarrow> trending_article list" where
  "group_row now grp =
     (case grp of
        [] \<Rightarrow> []
      | (a, ue) # rest \<Rightarrow>
          [article.extend a
             (trending_article.fields
                (coalesce (sql_sum (map (\<lambda>row. score_term now (snd row)) grp)) 0))])"

definition TrendingArticles :: "real \<Rightarrow> article list \<Rightarrow> user_event list \<Rightarrow> trending_article list" where
  "TrendingArticles now as ues =
     (let joined = left_join now as ues
      in concat (map (\<lambda>k. group_row now (filter (\<lambda>row. a_id (fst row) = k) joined))
                     (remdups (map (\<lambda>row. a_id (fst row)) joined))))"

section \<open>The ranking expression of \<^verbatim>\<open>findTrending\<close>\<close>

text \<open>
  \<^verbatim>\<open>ORDER BY trending_score * EXP(-ST_Distance(location, user_location.point) / 50000) DESC\<close>:
  the expression the rows are ordered by, as a function of the score and of the distance
  in metres.
\<close>

definition blended_score :: "real \<Rightarrow> real \<Rightarrow> real" where
  "blended_score score distance_meters = score * exp (- distance_meters / 50000)"

section \<open>Seed data of the initialisation script\<close>

text \<open>
  Section 9.3 of the script inserts five clicks on one article, created 1 hour, 2 hours,
  30 minutes, 10 minutes and 5 minutes before the insertion. \<open>seed_clicks now\<close> are these
  rows as they stand when the view is refreshed at \<open>now\<close>, the instant of the insertion.
\<close>

definition seed_article :: article where
  "seed_article =
     \<lparr>a_id = ''be1a8c2b-c3ad-40f4-993a-78fe5d65f631'', title = ''t'', description = ''d'',
      url = ''u'', publication_date = ''2025-01-01T00:00:00.000Z'', source_name = ''s'',
      category = [], relevance_score = 0.5, latitude = 21.77, longitude = 76.07\<rparr>"

definition seed_click :: "string \<Rightarrow> real \<Rightarrow> user_event" where
  "seed_click uid created =
     \<lparr>ue_id = uid, eventType = ''click'', createdAt = created,
      articleId = ''be1a8c2b-c3ad-40f4-993a-78fe5d65f631'', userId = ''test-user-1'',
      ue_latitude = 21.77, ue_longitude = 76.07\<rparr>"

definition seed_clicks :: "real \<Rightarrow> user_event list" where
  "seed_clicks now =
     [seed_click ''e1'' (now - 3600), seed_click ''e2'' (now - 7200),
      seed_click ''e3'' (now - 1800), seed_click ''e4'' (now - 600),
      seed_click ''e5'' (now - 300)]"

text \<open>
  The value the specification gives for the seeded article: five clicks aged 5, 10, 30, 60
  and 120 minutes.
\<close>

definition five_click_score :: real where
  "five_click_score =
     1.5 * (exp (- 300 / 43200) + exp (- 600 / 43200) + exp (- 1800 / 43200) +
            exp (- 3600 / 43200) + exp (- 7200 / 43200))"

definition other_article :: article where
  "other_article = seed_article\<lparr>a_id := ''00000000-0000-4000-8000-000000000002''\<rparr>"


section \<open>Errors\<close>

text \<open>
  What the code can throw: the \<^verbatim>\<open>RangeError\<close> of \<^verbatim>\<open>Number.prototype.toFixed\<close>, an
  \<^verbatim>\<open>Error\<close> with its message, a failure of the Redis client, and an error of the database
  (a violated constraint, a failed cast, a malformed text-search query).
\<close>

datatype exn = RangeError | Error string | RedisError string | DatabaseError string


section \<open>Geo bucketer (\<^verbatim>\<open>src/utils/geo.ts\<close>)\<close>

text \<open>
  \<^verbatim>\<open>getGeospatialCacheKey(lat, lon, precision = 2)\<close> returns
  \<^verbatim>\<open>`${lat.toFixed(precision)}:${lon.toFixed(precision)}`\<close>. \<^verbatim>\<open>toFixed\<close> is the algorithm of
  ECMAScript (Number.prototype.toFixed): a \<^verbatim>\<open>RangeError\<close> unless the number of fraction
  digits is within 0..100; the sign is split off; a magnitude of \<open>10^21\<close> or more is written
  by \<^verbatim>\<open>Number::toString\<close> (a parameter here); otherwise \<open>n\<close> is the integer for which
  \<open>n / 10^f - x\<close> is closest to zero, the larger one if there are two, and the digits of \<open>n\<close>
  are written with a point before the last \<open>f\<close>, padded with zeros on the left to \<open>f + 1\<close>
  digits. A JavaScript number is a \<^typ>\<open>real\<close> here (the exact value of the double); NaN
  and the infinities are not modelled. An omitted \<^verbatim>\<open>precision\<close> is \<^const>\<open>None\<close>.
\<close>

definition digit_char :: "nat \<Rightarrow> char" where
  "digit_char d = ''0123456789'' ! d"

fun digits :: "nat \<Rightarrow> string" where
  "digits n = (if n < 10 then [digit_char n] else digits (n div 10) @ [digit_char (n mod 10)])"

declare digits.simps [simp del]

definition fixed_digits :: "nat \<Rightarrow> nat \<Rightarrow> string" where
  "fixed_digits n f =
     (let m = digits n in
      if f \<noteq> 0 then
        (let k = length m;
             m' = (if k \<le> f then replicate (f + 1 - k) CHR ''0'' @ m else m);
             k' = (if k \<le> f then f + 1 else k)
         in take (k' - f) m' @ ''.'' @ drop (k' - f) m')
      else m)"

definition toFixed :: "(real \<Rightarrow> string) \<Rightarrow> real \<Rightarrow> int \<Rightarrow> exn + string" where
  "toFixed Number_toString x fractionDigits =
     (if fractionDigits < 0 \<or> 100 < fractionDigits then Inl RangeError
      else
        let f = nat fractionDigits;
            s = (if x < 0 then ''-'' else []);
            x' = (if x < 0 then - x else x)
        in if 10 ^ 21 \<le> x' then Inr (s @ Number_toString x')
           else Inr (s @ fixed_digits (nat \<lfloor>x' * 10 ^ f + 1 / 2\<rfloor>) f))"

definition getGeospatialCacheKey ::
    "(real \<Rightarrow> string) \<Rightarrow> real \<Rightarrow> real \<Rightarrow> int option \<Rightarrow> exn + string" where
  "getGeospatialCacheKey Number_toString lat lon precision_arg =
     (let precision = (case precision_arg of None \<Rightarrow> 2 | Some p \<Rightarrow> p) in
      case toFixed Number_toString lat precision of
        Inl e \<Rightarrow> Inl e
      | Inr latFixed \<Rightarrow>
          (case toFixed Number_toString lon precision of
             Inl e \<Rightarrow> Inl e
           | Inr lonFixed \<Rightarrow> Inr (latFixed @ '':'' @ lonFixed)))"

text \<open>
  What the specification says of the key, in its own words: each part is the coordinate
  \<^emph>\<open>fixed to the precision\<close>, that is a decimal numeral with \<open>p\<close> fraction digits whose value
  is the coordinate rounded to \<open>p\<close> decimal digits, half away from zero. \<open>decimal_value\<close>
  reads a numeral (an optional minus sign, digits, and optionally a point and digits) and
  gives its value and the number of its fraction digits. \<open>v\<close> is \<open>x\<close> rounded half away from
  zero to \<open>p\<close> digits when \<open>v\<close> is a multiple of \<open>10^-p\<close>, no multiple is nearer to \<open>x\<close>, and if
  \<open>x\<close> is midway between two multiples, \<open>v\<close> is the one of larger magnitude.
\<close>

definition digit_value :: "char \<Rightarrow> nat option" where
  "digit_value c =
     map_of [(CHR ''0'', 0), (CHR ''1'', 1), (CHR ''2'', 2), (CHR ''3'', 3), (CHR ''4'', 4),
             (CHR ''5'', 5), (CHR ''6'', 6), (CHR ''7'', 7), (CHR ''8'', 8), (CHR ''9'', 9)] c"

fun value_from :: "nat \<Rightarrow> string \<Rightarrow> nat option" where
  "value_from acc [] = Some acc"
| "value_from acc (c # cs) =
     (case digit_value c of None \<Rightarrow> None | Some d \<Rightarrow> value_from (10 * acc + d) cs)"

definition decimal_value :: "string \<Rightarrow> (real \<times> nat) option" where
  "decimal_value s =
     (let neg = (take 1 s = ''-'');
          body = (if neg then drop 1 s else s);
          ip = takeWhile (\<lambda>c. c \<noteq> CHR ''.'') body;
          fp = drop 1 (dropWhile (\<lambda>c. c \<noteq> CHR ''.'') body)
      in if ip = [] then None
         else case (value_from 0 ip, value_from 0 fp) of
                (Some i, Some f) \<Rightarrow>
                  Some ((if neg then - 1 else 1) * (real i + real f / 10 ^ length fp), length fp)
              | _ \<Rightarrow> None)"

definition rounds_half_away_from_zero :: "real \<Rightarrow> nat \<Rightarrow> real \<Rightarrow> bool" where
  "rounds_half_away_from_zero x p v \<longleftrightarrow>
     of_int \<lfloor>v * 10 ^ p\<rfloor> = v * 10 ^ p \<and>
     \<bar>v - x\<bar> \<le> 1 / (2 * 10 ^ p) \<and>
     (\<bar>v - x\<bar> = 1 / (2 * 10 ^ p) \<longrightarrow> \<bar>x\<bar> < \<bar>v\<bar>)"

definition fixed_to :: "real \<Rightarrow> nat \<Rightarrow> string \<Rightarrow> bool" where
  "fixed_to x p s \<longleftrightarrow>
     (case decimal_value s of
        None \<Rightarrow> False
      | Some (v, d) \<Rightarrow> d = p \<and> rounds_half_away_from_zero x p v)"

section \<open>JSON values\<close>

text \<open>
  What the cache stores and what a request returns is JSON. \<^verbatim>\<open>null\<close> is \<open>JNull\<close>; an object is
  the list of its properties. \<open>truthy\<close> is JavaScript's \<^verbatim>\<open>ToBoolean\<close> on such a value, as the
  tests \<^verbatim>\<open>if (cachedResult)\<close> and \<^verbatim>\<open>if (!summary)\<close> apply it.
\<close>

datatype json =
    JNull
  | JBool bool
  | JNum real
  | JStr string
  | JArr "json list"
  | JObj "(string \<times> json) list"

fun truthy :: "json \<Rightarrow> bool" where
  "truthy JNull = False"
| "truthy (JBool b) = b"
| "truthy (JNum x) = (x \<noteq> 0)"
| "truthy (JStr s) = (s \<noteq> [])"
| "truthy (JArr xs) = True"
| "truthy (JObj kvs) = True"

section \<open>Cache layer (\<^verbatim>\<open>src/core/adapters/cache/redis.adapter.ts\<close>)\<close>

text \<open>
  The backing store is a Redis server reached through a client. Its state is the map from
  keys to a value and the instant the entry expires (\<^verbatim>\<open>SET key value EX ttl\<close>), and a
  schedule of faults: the head of \<open>faults\<close> says whether the next operation of the client
  fails (connection lost, retries exhausted); an empty schedule means no further fault. A
  failed operation leaves the map as it was. The store holds the value itself:
  \<^verbatim>\<open>JSON.parse (JSON.stringify v)\<close> is taken to be \<open>v\<close>, and nothing but \<^verbatim>\<open>set\<close> writes to the
  store. Time is in seconds; a whole request runs at one instant \<open>now\<close>.
\<close>

record redis =
  store :: "string \<Rightarrow> (json \<times> real) option"
  faults :: "bool list"

definition next_fault :: "redis \<Rightarrow> bool \<times> redis" where
  "next_fault r = (case faults r of [] \<Rightarrow> (False, r) | b # bs \<Rightarrow> (b, r\<lparr>faults := bs\<rparr>))"

definition client_get :: "real \<Rightarrow> string \<Rightarrow> redis \<Rightarrow> (exn + json option) \<times> redis" where
  "client_get now key r =
     (let (fails, r') = next_fault r in
      if fails then (Inl (RedisError ''get''), r')
      else (Inr (case store r' key of
                   None \<Rightarrow> None
                 | Some (v, expiry) \<Rightarrow> if now < expiry then Some v else None), r'))"

definition client_set :: "real \<Rightarrow> string \<Rightarrow> json \<Rightarrow> int \<Rightarrow> redis \<Rightarrow> (exn + unit) \<times> redis" where
  "client_set now key v ttlSeconds r =
     (let (fails, r') = next_fault r in
      if fails then (Inl (RedisError ''set''), r')
      else if ttlSeconds \<le> 0 then (Inl (RedisError ''ERR invalid expire time in set''), r')
      else (Inr (), r'\<lparr>store := (store r')(key \<mapsto> (v, now + real_of_int ttlSeconds))\<rparr>))"

text \<open>
  The state a request runs in: the Redis store, and the calls made to the language model so
  far. The list of calls is not a variable of the source; it records what the source does,
  so that "the model is not called again" can be stated.
\<close>

datatype llm_call = AnalyzeQuery string | SummarizeText string

record state =
  cache :: redis
  llm_calls :: "llm_call list"

text \<open>
  \<^verbatim>\<open>await\<close>: an operation yields a value or throws, and leaves a state; what follows runs on
  the value, and a throw propagates.
\<close>

definition await :: "(exn + 'a) \<times> state \<Rightarrow> ('a \<Rightarrow> state \<Rightarrow> (exn + 'b) \<times> state) \<Rightarrow> (exn + 'b) \<times> state" where
  "await m f = (case m of (Inl e, s) \<Rightarrow> (Inl e, s) | (Inr x, s) \<Rightarrow> f x s)"

text \<open>
  \<^verbatim>\<open>RedisCacheProvider.get\<close> and \<^verbatim>\<open>set\<close>: the client's operation inside \<^verbatim>\<open>try\<close>, and a
  \<^verbatim>\<open>catch\<close> that logs and returns \<^verbatim>\<open>null\<close> (for \<^verbatim>\<open>get\<close>) or nothing (for \<^verbatim>\<open>set\<close>).
  \<^verbatim>\<open>data ? JSON.parse(data) : null\<close>: a missing key is \<^verbatim>\<open>null\<close>.
\<close>

definition cache_get :: "real \<Rightarrow> string \<Rightarrow> state \<Rightarrow> (exn + json) \<times> state" where
  "cache_get now key s =
     (case client_get now key (cache s) of
        (Inr data, r) \<Rightarrow> (Inr (case data of Some v \<Rightarrow> v | None \<Rightarrow> JNull), s\<lparr>cache := r\<rparr>)
      | (Inl error, r) \<Rightarrow> (Inr JNull, s\<lparr>cache := r\<rparr>))"

definition cache_set :: "real \<Rightarrow> string \<Rightarrow> json \<Rightarrow> int \<Rightarrow> state \<Rightarrow> (exn + unit) \<times> state" where
  "cache_set now key v ttlSeconds s =
     (case client_set now key v ttlSeconds (cache s) of
        (Inr u, r) \<Rightarrow> (Inr (), s\<lparr>cache := r\<rparr>)
      | (Inl error, r) \<Rightarrow> (Inr (), s\<lparr>cache := r\<rparr>))"

section \<open>Language model (\<^verbatim>\<open>GeminiProvider\<close>)\<close>

text \<open>
  The answers of the external model during one request: for a query, the parsed analysis,
  or \<^const>\<open>None\<close> when the call or \<^verbatim>\<open>JSON.parse\<close> throws; for a text, its summary, or
  \<^const>\<open>None\<close> when the call throws. The analysis is the object the prompt asks for; the code
  reads its \<^verbatim>\<open>keywords\<close> only, which may be missing; an answer of another shape (keywords
  that are not an array of strings) is outside the model. \<^verbatim>\<open>analyzeQuery\<close> rethrows a failure as
  \<^verbatim>\<open>Error('Failed to analyze query')\<close>; \<^verbatim>\<open>summarizeText\<close> catches it and returns a fixed text.
\<close>

record analysis =
  intent :: "string list"
  entities :: "(string \<times> string) list"
  analysis_keywords :: "string list option"

record language_model =
  analysis_response :: "string \<Rightarrow> analysis option"
  summary_response :: "string \<Rightarrow> string option"

definition analyzeQuery :: "language_model \<Rightarrow> string \<Rightarrow> state \<Rightarrow> (exn + analysis) \<times> state" where
  "analyzeQuery llm query s =
     (let s' = s\<lparr>llm_calls := llm_calls s @ [AnalyzeQuery query]\<rparr> in
      case analysis_response llm query of
        Some result \<Rightarrow> (Inr result, s')
      | None \<Rightarrow> (Inl (Error ''Failed to analyze query''), s'))"

definition summarizeText :: "language_model \<Rightarrow> string \<Rightarrow> state \<Rightarrow> (exn + string) \<times> state" where
  "summarizeText llm text s =
     (let s' = s\<lparr>llm_calls := llm_calls s @ [SummarizeText text]\<rparr> in
      case summary_response llm text of
        Some result \<Rightarrow> (Inr result, s')
      | None \<Rightarrow> (Inr ''Summary not available.'', s'))"

section \<open>Searches of the repository\<close>

text \<open>
  The keyword search is \<^verbatim>\<open>prisma.article.findMany\<close> with \<^verbatim>\<open>where: { OR: searchConditions }\<close>,
  \<^verbatim>\<open>orderBy: { relevance_score: 'desc' }\<close> and \<^verbatim>\<open>take: 5\<close>; a condition
  \<^verbatim>\<open>{ contains: keyword, mode: 'insensitive' }\<close> holds when the keyword occurs in the column,
  letter case aside (ASCII letters here). Rows of equal rank keep the order of the table,
  which SQL leaves open. The database is taken to answer: a lost connection is not
  modelled.
\<close>

definition to_lower :: "char \<Rightarrow> char" where
  "to_lower c =
     (case map_of (zip ''ABCDEFGHIJKLMNOPQRSTUVWXYZ'' ''abcdefghijklmnopqrstuvwxyz'') c of
        Some l \<Rightarrow> l
      | None \<Rightarrow> c)"

fun contains :: "string \<Rightarrow> string \<Rightarrow> bool" where
  "contains [] part = (part = [])"
| "contains (c # cs) part = (take (length part) (c # cs) = part \<or> contains cs part)"

definition contains_insensitive :: "string \<Rightarrow> string \<Rightarrow> bool" where
  "contains_insensitive column keyword = contains (map to_lower column) (map to_lower keyword)"

definition searchConditions :: "string list \<Rightarrow> (article \<Rightarrow> bool) list" where
  "searchConditions kws =
     concat (map (\<lambda>keyword.
       [\<lambda>a. contains_insensitive (title a) keyword,
        \<lambda>a. contains_insensitive (description a) keyword]) kws)"

definition findMany :: "article list \<Rightarrow> (article \<Rightarrow> bool) list \<Rightarrow> nat \<Rightarrow> article list" where
  "findMany table OR n =
     take n (sort_key (\<lambda>a. - relevance_score a) (filter (\<lambda>a. \<exists>c \<in> set OR. c a) table))"

text \<open>
  \<^verbatim>\<open>findBySearchQuery\<close> runs a full-text query. The text-search machinery of PostgreSQL is
  a parameter: whether \<^verbatim>\<open>to_tsquery('english', q)\<close> accepts the text, whether the
  \<^verbatim>\<open>search_vector\<close> of a row matches it, and the rank \<^verbatim>\<open>ts_rank\<close> gives. The query text is
  \<^verbatim>\<open>query.trim().split(/\s+/).join(' & ')\<close>; the rows are ordered by rank, then by relevance,
  both descending, and cut by \<^verbatim>\<open>OFFSET (page - 1) * limit LIMIT limit\<close>.
\<close>

record text_search =
  tsquery_ok :: "string \<Rightarrow> bool"
  ts_match :: "article \<Rightarrow> string \<Rightarrow> bool"
  ts_rank :: "article \<Rightarrow> string \<Rightarrow> real"

definition is_space :: "char \<Rightarrow> bool" where
  "is_space c \<longleftrightarrow> c \<in> set [CHR '' '', CHR 0x09, CHR 0x0A, CHR 0x0B, CHR 0x0C, CHR 0x0D]"

definition trim :: "string \<Rightarrow> string" where
  "trim s = rev (dropWhile is_space (rev (dropWhile is_space s)))"

function split_ws :: "string \<Rightarrow> string list" where
  "split_ws s =
     (let word = takeWhile (\<lambda>c. \<not> is_space c) s;
          rest = dropWhile (\<lambda>c. \<not> is_space c) s
      in if rest = [] then [word] else word # split_ws (dropWhile is_space (tl rest)))"
  by pat_completeness auto
termination
proof (relation "measure length")
  fix s word rest
  assume rest: "rest = dropWhile (\<lambda>c. \<not> is_space c) s" and "rest \<noteq> []"
  have "length (dropWhile is_space (tl rest)) \<le> length (tl rest)"
    by (rule length_dropWhile_le)
  also have "\<dots> < length rest"
    using \<open>rest \<noteq> []\<close> by (cases rest) simp_all
  also have "\<dots> \<le> length s"
    unfolding rest by (rule length_dropWhile_le)
  finally show "(dropWhile is_space (tl rest), s) \<in> measure length"
    by simp
qed simp

declare split_ws.simps [simp del]

fun join :: "string \<Rightarrow> string list \<Rightarrow> string" where
  "join sep [] = []"
| "join sep [x] = x"
| "join sep (x # y # ys) = x @ sep @ join sep (y # ys)"

definition findBySearchQuery ::
    "text_search \<Rightarrow> article list \<Rightarrow> string \<Rightarrow> int \<Rightarrow> int \<Rightarrow> exn + (article list \<times> nat)" where
  "findBySearchQuery pg table query page limit =
     (let processedQuery = join '' & '' (split_ws (trim query));
          skip = (page - 1) * limit
      in if \<not> tsquery_ok pg processedQuery then Inl (DatabaseError ''syntax error in tsquery'')
         else if skip < 0 then Inl (DatabaseError ''OFFSET must not be negative'')
         else if limit < 0 then Inl (DatabaseError ''LIMIT must not be negative'')
         else
           let hits = filter (\<lambda>a. ts_match pg a processedQuery) table;
               ordered = sort_key (\<lambda>a. - ts_rank pg a processedQuery)
                           (sort_key (\<lambda>a. - relevance_score a) hits)
           in Inr (take (nat limit) (drop (nat skip) ordered), length hits))"

section \<open>Query resolution (\<^verbatim>\<open>NewsService\<close>)\<close>

text \<open>
  \<^verbatim>\<open>formatArticles\<close> copies the ten columns of a row into a plain object (a row with extra
  columns, such as a distance, loses them); \<open>article_json\<close> is that object as JSON.
\<close>

definition formatArticles :: "'a article_scheme list \<Rightarrow> article list" where
  "formatArticles articles =
     map (\<lambda>article.
       \<lparr>a_id = a_id article, title = title article, description = description article,
        url = url article, publication_date = publication_date article,
        source_name = source_name article, category = category article,
        relevance_score = relevance_score article, latitude = latitude article,
        longitude = longitude article\<rparr>) articles"

definition article_json :: "article \<Rightarrow> (string \<times> json) list" where
  "article_json article =
     [(''id'', JStr (a_id article)), (''title'', JStr (title article)),
      (''description'', JStr (description article)), (''url'', JStr (url article)),
      (''publication_date'', JStr (publication_date article)),
      (''source_name'', JStr (source_name article)),
      (''category'', JArr (map JStr (category article))),
      (''relevance_score'', JNum (relevance_score article)),
      (''latitude'', JNum (latitude article)), (''longitude'', JNum (longitude article))]"

text \<open>
  \<^verbatim>\<open>enrichArticlesWithSummaries\<close> maps an asynchronous function over the articles and awaits
  them all. \<open>enrich_article\<close> is that function: look the summary up under
  \<^verbatim>\<open>`summary:${article.id}`\<close>; if it is falsy, ask the model and store the answer for 86400
  seconds; return \<^verbatim>\<open>{ ...article, llm_summary: summary }\<close>. The functions run one after the
  other here, in the order of the list; the articles of a result are distinct rows, under
  distinct keys, so the order in which their lookups and writes interleave does not change
  what each of them reads.
\<close>

definition enrich_article :: "language_model \<Rightarrow> real \<Rightarrow> article \<Rightarrow> state \<Rightarrow> (exn + json) \<times> state" where
  "enrich_article llm now article s0 =
     (let summaryCacheKey = ''summary:'' @ a_id article in
      await (cache_get now summaryCacheKey s0) (\<lambda>cached s1.
        if \<not> truthy cached then
          await (summarizeText llm (description article) s1) (\<lambda>text s2.
            await (cache_set now summaryCacheKey (JStr text) 86400 s2) (\<lambda>u s3.
              (Inr (JObj (article_json article @ [(''llm_summary'', JStr text)])), s3)))
        else (Inr (JObj (article_json article @ [(''llm_summary'', cached)])), s1)))"

fun enrichArticlesWithSummaries ::
    "language_model \<Rightarrow> real \<Rightarrow> article list \<Rightarrow> state \<Rightarrow> (exn + json list) \<times> state" where
  "enrichArticlesWithSummaries llm now [] s = (Inr [], s)"
| "enrichArticlesWithSummaries llm now (article # articles) s =
     await (enrich_article llm now article s) (\<lambda>enriched s1.
       await (enrichArticlesWithSummaries llm now articles s1) (\<lambda>rest s2.
         (Inr (enriched # rest), s2)))"

text \<open>
  What a request sees of the world: the instant, the rows of \<^verbatim>\<open>"Article"\<close>, the text search
  of the database, the answers of the language model, and how JavaScript writes a number
  in a template literal (\<^verbatim>\<open>Number::toString\<close>).
\<close>

record world =
  instant :: real
  table_rows :: "article list"
  fts :: text_search
  gemini :: language_model
  Number_toString :: "real \<Rightarrow> string"

definition template :: "world \<Rightarrow> real option \<Rightarrow> string" where
  "template w v = (case v of None \<Rightarrow> ''undefined'' | Some x \<Rightarrow> Number_toString w x)"

definition query_cache_key :: "world \<Rightarrow> string \<Rightarrow> real option \<Rightarrow> real option \<Rightarrow> string" where
  "query_cache_key w query lat lon =
     ''query:final-v9:'' @ query @ '':'' @ template w lat @ '':'' @ template w lon"

text \<open>
  The two searches of \<^verbatim>\<open>processNaturalLanguageQuery\<close>: by the keywords of the analysis
  (\<^verbatim>\<open>analysis.keywords || []\<close>) when there are any, and, if that finds nothing, the full-text
  search of the original query, page 1 with a limit of 5.
\<close>

definition find_articles :: "world \<Rightarrow> string \<Rightarrow> analysis \<Rightarrow> exn + article list" where
  "find_articles w query analysis =
     (let kws = (case analysis_keywords analysis of Some ks \<Rightarrow> ks | None \<Rightarrow> []);
          by_keywords =
            (if length kws > 0 then findMany (table_rows w) (searchConditions kws) 5 else [])
      in if by_keywords = [] then
           (case findBySearchQuery (fts w) (table_rows w) query 1 5 of
              Inl e \<Rightarrow> Inl e
            | Inr (searchArticles, total_hits) \<Rightarrow> Inr searchArticles)
         else Inr by_keywords)"

text \<open>
  \<^verbatim>\<open>processNaturalLanguageQuery\<close>: serve a truthy cached result; otherwise analyse the query
  (a failure is thrown on), search, return \<^verbatim>\<open>[]\<close> at once when nothing is found, and else
  format, enrich, store the result for 3600 seconds and return it.
\<close>

definition processNaturalLanguageQuery ::
    "world \<Rightarrow> string \<Rightarrow> real option \<Rightarrow> real option \<Rightarrow> state \<Rightarrow> (exn + json) \<times> state" where
  "processNaturalLanguageQuery w query lat lon s0 =
     (let cacheKey = query_cache_key w query lat lon in
      await (cache_get (instant w) cacheKey s0) (\<lambda>cachedResult s1.
        if truthy cachedResult then (Inr cachedResult, s1)
        else
          await (analyzeQuery (gemini w) query s1) (\<lambda>analysis s2.
            await (find_articles w query analysis, s2) (\<lambda>found s3.
              if found = [] then (Inr (JArr []), s3)
              else
                await (enrichArticlesWithSummaries (gemini w) (instant w) (formatArticles found) s3)
                  (\<lambda>enrichedArticles s4.
                     await (cache_set (instant w) cacheKey (JArr enrichedArticles) 3600 s4)
                       (\<lambda>u s5. (Inr (JArr enrichedArticles), s5)))))))"

section \<open>Event recorder (\<^verbatim>\<open>NewsRepository.logEvent\<close>)\<close>

text \<open>
  \<^verbatim>\<open>logEvent\<close> runs one \<^verbatim>\<open>INSERT INTO "UserEvent"\<close> whose id is \<^verbatim>\<open>gen_random_uuid()\<close>, whose
  article id is \<^verbatim>\<open>${event.articleId}::uuid\<close> and whose \<^verbatim>\<open>"createdAt"\<close> is the default
  \<^verbatim>\<open>CURRENT_TIMESTAMP\<close>. The statement fails, and inserts nothing, when the cast fails, when
  the primary key \<^verbatim>\<open>UserEvent_pkey\<close> is violated, or when the foreign key
  \<^verbatim>\<open>UserEvent_articleId_fkey\<close> (\<^verbatim>\<open>"articleId" REFERENCES "Article"("id")\<close>) is. The cast of
  PostgreSQL (\<open>uuid_in\<close>: the text of the uuid it reads, or nothing) and the generated id are
  parameters.
\<close>

record database =
  Article :: "article list"
  UserEvent :: "user_event list"

record event_data =
  new_eventType :: string
  new_articleId :: string
  new_userId :: string
  new_latitude :: real
  new_longitude :: real

definition logEvent ::
    "(string \<Rightarrow> string option) \<Rightarrow> string \<Rightarrow> real \<Rightarrow> event_data \<Rightarrow> database \<Rightarrow>
     (exn + unit) \<times> database" where
  "logEvent uuid_in gen_random_uuid current_timestamp event db =
     (case uuid_in (new_articleId event) of
        None \<Rightarrow> (Inl (DatabaseError ''invalid input syntax for type uuid''), db)
      | Some article_id \<Rightarrow>
          if gen_random_uuid \<in> set (map ue_id (UserEvent db)) then
            (Inl (DatabaseError ''duplicate key value violates UserEvent_pkey''), db)
          else if article_id \<notin> set (map a_id (Article db)) then
            (Inl (DatabaseError ''violates foreign key constraint UserEvent_articleId_fkey''), db)
          else
            (Inr (),
             db\<lparr>UserEvent := UserEvent db @
                  [\<lparr>ue_id = gen_random_uuid, eventType = new_eventType event,
                    createdAt = current_timestamp, articleId = article_id,
                    userId = new_userId event, ue_latitude = new_latitude event,
                    ue_longitude = new_longitude event\<rparr>]\<rparr>))"

text \<open>\<^verbatim>\<open>NewsService.createEvent\<close> passes the request on and awaits the insertion.\<close>

definition createEvent ::
    "(string \<Rightarrow> string option) \<Rightarrow> string \<Rightarrow> real \<Rightarrow> event_data \<Rightarrow> database \<Rightarrow>
     (exn + unit) \<times> database" where
  "createEvent uuid_in gen_random_uuid current_timestamp eventData db =
     logEvent uuid_in gen_random_uuid current_timestamp
       \<lparr>new_eventType = new_eventType eventData, new_articleId = new_articleId eventData,
        new_userId = new_userId eventData, new_latitude = new_latitude eventData,
        new_longitude = new_longitude eventData\<rparr> db"

section \<open>Predicates used by the properties\<close>

text \<open>
  The entries of the cache under the prefix of the query results are non-empty arrays of at
  most five elements. The calls to the summarizer recorded in a state.
\<close>

definition query_results_bounded :: "redis \<Rightarrow> bool" where
  "query_results_bounded r \<longleftrightarrow>
     (\<forall>key v expiry. store r key = Some (v, expiry) \<longrightarrow> take 15 key = ''query:final-v9:'' \<longrightarrow>
        (\<exists>xs. v = JArr xs \<and> xs \<noteq> [] \<and> length xs \<le> 5))"

definition summarize_calls :: "state \<Rightarrow> llm_call list" where
  "summarize_calls s =
     filter (\<lambda>c. case c of SummarizeText text \<Rightarrow> True | AnalyzeQuery query \<Rightarrow> False) (llm_calls s)"

text \<open>
  The states the service can be in: it starts with an empty store; a query request, a
  lookup, and a write under a key outside the prefix of the query results (the summaries,
  the trending results) lead from one state to the next; and the faults that lie ahead
  may be any.
\<close>

inductive reachable :: "state \<Rightarrow> bool" where
  started: "reachable \<lparr>cache = \<lparr>store = (\<lambda>key. None), faults = fs\<rparr>, llm_calls = []\<rparr>"
| requested: "reachable s \<Longrightarrow> reachable (snd (processNaturalLanguageQuery w query lat lon s))"
| looked_up: "reachable s \<Longrightarrow> reachable (snd (cache_get t key s))"
| written: "reachable s \<Longrightarrow> take 15 key \<noteq> ''query:final-v9:'' \<Longrightarrow>
    reachable (snd (cache_set t key v ttl s))"
| rescheduled: "reachable s \<Longrightarrow> reachable (s\<lparr>cache := (cache s)\<lparr>faults := fs\<rparr>\<rparr>)"




abbreviation with_summary :: "article \<Rightarrow> json \<Rightarrow> json" where
  "with_summary article summary \<equiv> JObj (article_json article @ [(''llm_summary'', summary)])"

abbreviation with_faults :: "bool list \<Rightarrow> state \<Rightarrow> state" where
  "with_faults fs s \<equiv> s\<lparr>cache := (cache s)\<lparr>faults := fs\<rparr>\<rparr>"
section \<open>Example worlds\<close>

text \<open>
  Concrete inputs on which the properties are exercised: a working, empty cache; a cache
  whose next two operations fail; a table of six articles that all mention a keyword; a
  world in which nothing matches; and a model that fails to summarize.
\<close>

definition empty_state :: state where
  "empty_state = \<lparr>cache = \<lparr>store = (\<lambda>key. None), faults = []\<rparr>, llm_calls = []\<rparr>"

definition failing_state :: state where
  "failing_state = \<lparr>cache = \<lparr>store = (\<lambda>key. None), faults = [True, True]\<rparr>, llm_calls = []\<rparr>"

definition example_article :: "string \<Rightarrow> real \<Rightarrow> article" where
  "example_article i score =
     \<lparr>a_id = i, title = ''ai'', description = ''d'', url = ''u'', publication_date = ''p'',
      source_name = ''s'', category = [], relevance_score = score, latitude = 0, longitude = 0\<rparr>"

definition no_text_search :: text_search where
  "no_text_search = \<lparr>tsquery_ok = (\<lambda>q. True), ts_match = (\<lambda>a q. False), ts_rank = (\<lambda>a q. 0)\<rparr>"

definition six_articles_world :: world where
  "six_articles_world =
     \<lparr>instant = 1000,
      table_rows = [example_article ''1'' 0.1, example_article ''2'' 0.6, example_article ''3'' 0.3,
                    example_article ''4'' 0.5, example_article ''5'' 0.2, example_article ''6'' 0.4],
      fts = no_text_search,
      gemini = \<lparr>analysis_response =
                  (\<lambda>q. Some \<lparr>intent = [''search''], entities = [], analysis_keywords = Some [''AI'']\<rparr>),
                summary_response = (\<lambda>d. Some ''s'')\<rparr>,
      Number_toString = (\<lambda>x. [])\<rparr>"

definition no_match_world :: world where
  "no_match_world =
     \<lparr>instant = 1000,
      table_rows = [example_article ''1'' 0.1],
      fts = no_text_search,
      gemini = \<lparr>analysis_response =
                  (\<lambda>q. Some \<lparr>intent = [''search''], entities = [], analysis_keywords = Some [''xyz'']\<rparr>),
                summary_response = (\<lambda>d. Some ''s'')\<rparr>,
      Number_toString = (\<lambda>x. [])\<rparr>"

definition failing_model :: language_model where
  "failing_model = \<lparr>analysis_response = (\<lambda>q. None), summary_response = (\<lambda>d. None)\<rparr>"

definition working_model :: language_model where
  "working_model = \<lparr>analysis_response = (\<lambda>q. None), summary_response = (\<lambda>d. Some ''fresh'')\<rparr>"

definition example_database :: database where
  "example_database = \<lparr>Article = [seed_article], UserEvent = []\<rparr>"

definition unknown_article_event :: event_data where
  "unknown_article_event =
     \<lparr>new_eventType = ''click'', new_articleId = ''00000000-0000-4000-8000-000000000009'',
      new_userId = ''test-user-1'', new_latitude = 21.77, new_longitude = 76.07\<rparr>"





chapter \<open>Properties\<close>

section \<open>Popularity aggregate\<close>

lemma left_join_blocks: "left_join now as ues = concat (map (join_block now ues) as)"
  by (simp add: left_join_def)

lemma join_block_fst: "row \<in> set (join_block now ues a) \<Longrightarrow> fst row = a"
  by (auto simp: join_block_def Let_def split: if_splits)

lemma join_block_nonempty: "join_block now ues a \<noteq> []"
  by (simp add: join_block_def Let_def)

lemma filter_join_block_same:
  "filter (\<lambda>row. a_id (fst row) = a_id a) (join_block now ues a) = join_block now ues a"
  by (rule filter_True) (simp add: join_block_fst)

lemma filter_join_block_other:
  "a_id b \<noteq> k \<Longrightarrow> filter (\<lambda>row. a_id (fst row) = k) (join_block now ues b) = []"
  by (rule filter_False) (simp add: join_block_fst)

lemma left_join_group:
  "distinct (map a_id as) \<Longrightarrow> a \<in> set as \<Longrightarrow>
   filter (\<lambda>row. a_id (fst row) = a_id a) (left_join now as ues) = join_block now ues a"
proof (induction as)
  case Nil
  then show ?case by simp
next
  case (Cons b bs)
  have rest_other:
    "filter (\<lambda>row. a_id (fst row) = k) (concat (map (join_block now ues) cs)) = []"
    if "k \<notin> a_id ` set cs" for k cs
    using that by (induction cs) (auto simp: filter_join_block_other)
  show ?case
  proof (cases "a = b")
    case True
    with Cons.prems have "a_id a \<notin> a_id ` set bs" by auto
    with True show ?thesis
      by (simp add: left_join_blocks filter_join_block_same rest_other)
  next
    case False
    with Cons.prems have "a \<in> set bs" and "a_id b \<noteq> a_id a" by auto
    with Cons show ?thesis
      by (simp add: left_join_blocks filter_join_block_other)
  qed
qed

lemma left_join_keys:
  "set (map (\<lambda>row. a_id (fst row)) (left_join now as ues)) = a_id ` set as"
proof -
  have "set (map (\<lambda>row. a_id (fst row)) (join_block now ues a)) = {a_id a}" for a
  proof -
    obtain row where row: "row \<in> set (join_block now ues a)"
      using join_block_nonempty [of now ues a] by (cases "join_block now ues a") auto
    then have "fst row = a" by (rule join_block_fst)
    with row have "a_id a \<in> (\<lambda>row. a_id (fst row)) ` set (join_block now ues a)"
      by (metis imageI)
    moreover have "(\<lambda>row. a_id (fst row)) ` set (join_block now ues a) \<subseteq> {a_id a}"
      by (auto dest: join_block_fst)
    ultimately show ?thesis by auto
  qed
  then have "(\<Union>a\<in>set as. (\<lambda>row. a_id (fst row)) ` set (join_block now ues a)) =
             (\<Union>a\<in>set as. {a_id a})"
    by simp
  then show ?thesis
    by (simp add: left_join_blocks image_UN UNION_singleton_eq_range)
qed

lemma filter_eq_distinct: "distinct xs \<Longrightarrow> x \<in> set xs \<Longrightarrow> filter (\<lambda>y. y = x) xs = [x]"
  by (induction xs) (auto simp: filter_empty_conv)

lemma group_score:
  "coalesce (sql_sum (map (\<lambda>row. score_term now (snd row)) (join_block now ues a))) 0 =
   sum_list (map (\<lambda>ue. (if eventType ue = ''click'' then 1.5 else 1.0) *
                        exp (- (now - createdAt ue) / 43200))
                 (filter (join_condition now a) ues))"
proof (cases "filter (join_condition now a) ues")
  case Nil
  then show ?thesis
    by (simp add: join_block_def sql_sum_def coalesce_def score_term_def List.map_filter_simps)
next
  case (Cons m ms)
  have "List.map_filter (\<lambda>v. v) (map (\<lambda>ue. Some (f ue)) xs) = map f xs" for f :: "user_event \<Rightarrow> real" and xs
    by (induction xs) (simp_all add: List.map_filter_simps)
  with Cons show ?thesis
    by (simp add: join_block_def sql_sum_def coalesce_def score_term_def comp_def)
qed

lemma group_row_key:
  assumes "\<forall>row \<in> set grp. a_id (fst row) = k" and "r \<in> set (group_row now grp)"
  shows "a_id r = k"
  using assms by (cases grp) (auto simp: group_row_def article.defs)

lemma concat_map_none: "x \<notin> set ks \<Longrightarrow> concat (map (\<lambda>k. if k = x then g k else []) ks) = []"
  by (induction ks) auto

lemma concat_map_select:
  "distinct ks \<Longrightarrow> x \<in> set ks \<Longrightarrow> concat (map (\<lambda>k. if k = x then g k else []) ks) = g x"
  by (induction ks) (auto simp: concat_map_none)

lemma group_row_join_block:
  "group_row now (join_block now ues a) =
     [article.extend a (trending_article.fields
        (coalesce (sql_sum (map (\<lambda>row. score_term now (snd row)) (join_block now ues a))) 0))]"
proof (cases "join_block now ues a")
  case Nil
  then show ?thesis by (simp add: join_block_nonempty)
next
  case (Cons row rest)
  then have "fst row = a"
    using join_block_fst [of row now ues a] by simp
  with Cons show ?thesis
    by (cases row) (simp add: group_row_def)
qed

lemma TrendingArticles_row:
  assumes pk: "distinct (map a_id as)" and a: "a \<in> set as"
  shows "filter (\<lambda>r. a_id r = a_id a) (TrendingArticles now as ues) =
         [article.extend a (trending_article.fields
            (sum_list (map (\<lambda>ue. (if eventType ue = ''click'' then 1.5 else 1.0) *
                                   exp (- (now - createdAt ue) / 43200))
                           (filter (join_condition now a) ues))))]"
proof -
  let ?joined = "left_join now as ues"
  let ?keys = "remdups (map (\<lambda>row. a_id (fst row)) ?joined)"
  let ?grp = "\<lambda>k. filter (\<lambda>row. a_id (fst row) = k) ?joined"
  let ?rows = "\<lambda>k. group_row now (?grp k)"
  have view: "TrendingArticles now as ues = concat (map ?rows ?keys)"
    by (simp add: TrendingArticles_def Let_def)
  have pick: "filter (\<lambda>r. a_id r = a_id a) (?rows k) = (if k = a_id a then ?rows k else [])" for k
  proof -
    have "a_id r = k" if "r \<in> set (?rows k)" for r
      using _ that by (rule group_row_key) simp
    then show ?thesis
      by (auto simp: filter_empty_conv intro: filter_True)
  qed
  have mem: "a_id a \<in> set ?keys"
    using a left_join_keys [of now as ues] by auto
  have "filter (\<lambda>r. a_id r = a_id a) (concat (map ?rows ?keys)) =
        concat (map (\<lambda>k. if k = a_id a then ?rows k else []) ?keys)"
    by (simp add: filter_concat comp_def pick)
  also have "\<dots> = ?rows (a_id a)"
    using mem by (intro concat_map_select) simp_all
  also have "?grp (a_id a) = join_block now ues a"
    using pk a by (rule left_join_group)
  finally show ?thesis
    by (simp add: view group_row_join_block group_score)
qed

lemma group_row_singleton: "grp \<noteq> [] \<Longrightarrow> length (group_row now grp) = 1"
  by (cases grp) (auto simp: group_row_def)

lemma length_concat_singletons:
  "\<forall>k \<in> set ks. length (g k) = 1 \<Longrightarrow> length (concat (map g ks)) = length ks"
  by (induction ks) simp_all

lemma TrendingArticles_length:
  assumes "distinct (map a_id as)"
  shows "length (TrendingArticles now as ues) = length as"
proof -
  let ?joined = "left_join now as ues"
  let ?ids = "map (\<lambda>row. a_id (fst row)) ?joined"
  let ?grp = "\<lambda>k. filter (\<lambda>row. a_id (fst row) = k) ?joined"
  have "length (group_row now (?grp k)) = 1" if "k \<in> set (remdups ?ids)" for k
  proof -
    from that obtain row where "row \<in> set ?joined" "a_id (fst row) = k" by auto
    then have "?grp k \<noteq> []" by (auto simp: filter_empty_conv)
    then show ?thesis by (rule group_row_singleton)
  qed
  then have "length (TrendingArticles now as ues) = length (remdups ?ids)"
    by (simp add: TrendingArticles_def Let_def length_concat_singletons)
  also have "\<dots> = card (set ?ids)"
    by (rule length_remdups_card_conv)
  also have "set ?ids = set (map a_id as)"
    using left_join_keys [of now as ues] by simp
  also have "card (set (map a_id as)) = length (map a_id as)"
    using assms by (rule distinct_card)
  finally show ?thesis by simp
qed

text \<open>
  \<^bold>\<open>C1.\<close> Where the article ids are distinct (the primary key \<^verbatim>\<open>Article_pkey\<close>), the view
  holds exactly one row for every article \<open>a\<close>: the list of the view's rows with the id of \<open>a\<close>
  is a single row. That row carries the columns of \<open>a\<close>, and its \<^verbatim>\<open>trending_score\<close> is the sum,
  over the events of \<open>a\<close> younger than 24 hours (86400 s) at the refresh, of 1.5 for a click and
  1.0 for any other kind, times \<open>exp (- age / 43200)\<close>. When \<open>a\<close> has no such event the row is
  still there, with score 0. The view has no other rows: it has as many rows as there are
  articles.
\<close>

theorem TrendingArticles_one_row_per_article:
  assumes "distinct (map a_id as)" and "a \<in> set as"
  shows "filter (\<lambda>r. a_id r = a_id a) (TrendingArticles now as ues) =
           [article.extend a (trending_article.fields
              (\<Sum>ue\<leftarrow>filter (\<lambda>ue. articleId ue = a_id a \<and> now - createdAt ue < 86400) ues.
                  (if eventType ue = ''click'' then 1.5 else 1.0) *
                  exp (- (now - createdAt ue) / 43200)))] \<and>
         ((\<forall>ue \<in> set ues. \<not> (articleId ue = a_id a \<and> now - createdAt ue < 86400)) \<longrightarrow>
          filter (\<lambda>r. a_id r = a_id a) (TrendingArticles now as ues) =
            [article.extend a (trending_article.fields 0)]) \<and>
         length (TrendingArticles now as ues) = length as"
proof (intro conjI impI)
  show "length (TrendingArticles now as ues) = length as"
    using assms(1) by (rule TrendingArticles_length)
next
  have window: "filter (join_condition now a) ues =
                filter (\<lambda>ue. articleId ue = a_id a \<and> now - createdAt ue < 86400) ues"
    by (rule filter_cong) (auto simp: join_condition_def)
  show row: "filter (\<lambda>r. a_id r = a_id a) (TrendingArticles now as ues) =
           [article.extend a (trending_article.fields
              (\<Sum>ue\<leftarrow>filter (\<lambda>ue. articleId ue = a_id a \<and> now - createdAt ue < 86400) ues.
                  (if eventType ue = ''click'' then 1.5 else 1.0) *
                  exp (- (now - createdAt ue) / 43200)))]"
    using TrendingArticles_row [OF assms, of now ues] by (simp only: window)
  assume "\<forall>ue \<in> set ues. \<not> (articleId ue = a_id a \<and> now - createdAt ue < 86400)"
  then have "filter (\<lambda>ue. articleId ue = a_id a \<and> now - createdAt ue < 86400) ues = []"
    by (simp add: filter_empty_conv)
  with row show "filter (\<lambda>r. a_id r = a_id a) (TrendingArticles now as ues) =
         [article.extend a (trending_article.fields 0)]"
    by simp
qed

theorem TrendingArticles_one_row_per_article_witness:
  "filter (\<lambda>r. a_id r = a_id other_article)
     (TrendingArticles 100000 [seed_article, other_article] (seed_clicks 100000)) =
   [article.extend other_article (trending_article.fields 0)]"
proof -
  have pk: "distinct (map a_id [seed_article, other_article])"
    by (simp add: seed_article_def other_article_def)
  have mem: "other_article \<in> set [seed_article, other_article]"
    by simp
  have none: "\<forall>ue \<in> set (seed_clicks 100000).
      \<not> (articleId ue = a_id other_article \<and> 100000 - createdAt ue < 86400)"
    by (simp add: seed_clicks_def seed_click_def other_article_def seed_article_def)
  from TrendingArticles_one_row_per_article [OF pk mem, of 100000 "seed_clicks 100000"] none
  show ?thesis by blast
qed

section \<open>The seeded example\<close>

lemma exp_neg_upper:
  fixes x :: real
  assumes "0 \<le> x"
  shows "exp (- x) \<le> 1 - x + x\<^sup>2 / 2"
proof -
  obtain t where "exp (- x) = (\<Sum>m<3. (- x) ^ m / fact m) + exp t / fact 3 * (- x) ^ 3"
    using Maclaurin_exp_le [of "- x" 3] by blast
  then have eq: "exp (- x) = 1 - x + x\<^sup>2 / 2 - exp t / 6 * x ^ 3"
    by (simp add: numeral_3_eq_3 power2_eq_square fact_numeral lessThan_Suc)
  have "0 \<le> exp t / 6 * x ^ 3"
    using assms by simp
  with eq show ?thesis by linarith
qed

lemma exp_neg_lower:
  fixes x :: real
  shows "1 - x + x\<^sup>2 / 2 - x ^ 3 / 6 \<le> exp (- x)"
proof -
  obtain t where "exp (- x) = (\<Sum>m<4. (- x) ^ m / fact m) + exp t / fact 4 * (- x) ^ 4"
    using Maclaurin_exp_le [of "- x" 4] by blast
  then have eq: "exp (- x) = 1 - x + x\<^sup>2 / 2 - x ^ 3 / 6 + exp t / 24 * x ^ 4"
    by (simp add: eval_nat_numeral power2_eq_square fact_numeral lessThan_Suc)
  have "0 \<le> exp t / 24 * x ^ 4"
    by simp
  with eq show ?thesis by linarith
qed

lemma five_click_score_bounds: "7.057 < five_click_score \<and> five_click_score < 7.059"
proof -
  note u = exp_neg_upper [of "1/144"] exp_neg_upper [of "1/72"] exp_neg_upper [of "1/24"]
    exp_neg_upper [of "1/12"] exp_neg_upper [of "1/6"]
  note l = exp_neg_lower [of "1/144"] exp_neg_lower [of "1/72"] exp_neg_lower [of "1/24"]
    exp_neg_lower [of "1/12"] exp_neg_lower [of "1/6"]
  have "five_click_score =
      1.5 * (exp (- (1/144)) + exp (- (1/72)) + exp (- (1/24)) + exp (- (1/12)) + exp (- (1/6)))"
    by (simp add: five_click_score_def)
  with u l show ?thesis
    by (simp add: power2_eq_square power3_eq_cube)
qed

lemma window_score_mset:
  "(\<Sum>ue\<leftarrow>evs. (if eventType ue = ''click'' then 1.5 else 1.0) * exp (- (now - createdAt ue) / 43200)) =
   sum_mset (image_mset (\<lambda>(kind, age). (if kind = ''click'' then 1.5 else 1.0) * exp (- age / 43200))
      (mset (map (\<lambda>ue. (eventType ue, now - createdAt ue)) evs)))"
proof -
  have "sum_mset (image_mset (\<lambda>(kind, age). (if kind = ''click'' then 1.5 else 1.0) * exp (- age / 43200))
      (mset (map (\<lambda>ue. (eventType ue, now - createdAt ue)) evs))) =
    sum_list (map (\<lambda>(kind, age). (if kind = ''click'' then 1.5 else 1.0) * exp (- age / 43200))
      (map (\<lambda>ue. (eventType ue, now - createdAt ue)) evs))"
    by (simp only: mset_map [symmetric] sum_mset_sum_list)
  also have "\<dots> = (\<Sum>ue\<leftarrow>evs. (if eventType ue = ''click'' then 1.5 else 1.0) *
      exp (- (now - createdAt ue) / 43200))"
    by (simp only: map_map comp_def case_prod_conv)
  finally show ?thesis by (rule sym)
qed

text \<open>
  \<^bold>\<open>C3\<close> (as amended). An article whose events younger than 24 hours are exactly five clicks,
  aged 300, 600, 1800, 3600 and 7200 seconds at the refresh, has the trending score
  \<open>1.5 * (exp (-300/43200) + exp (-600/43200) + exp (-1800/43200) + exp (-3600/43200) +
  exp (-7200/43200))\<close>, and this number lies between 7.057 and 7.059: it is about 7.06.
\<close>

theorem five_clicks_trending_score:
  assumes "distinct (map a_id as)" and "a \<in> set as"
    and "mset (map (\<lambda>ue. (eventType ue, now - createdAt ue))
               (filter (\<lambda>ue. articleId ue = a_id a \<and> now - createdAt ue < 86400) ues)) =
         {#(''click'', 300), (''click'', 600), (''click'', 1800), (''click'', 3600), (''click'', 7200)#}"
  shows "map trending_score (filter (\<lambda>r. a_id r = a_id a) (TrendingArticles now as ues)) =
           [five_click_score] \<and>
         7.057 < five_click_score \<and> five_click_score < 7.059"
proof -
  have window: "filter (join_condition now a) ues =
                filter (\<lambda>ue. articleId ue = a_id a \<and> now - createdAt ue < 86400) ues"
    by (rule filter_cong) (auto simp: join_condition_def)
  have "(\<Sum>ue\<leftarrow>filter (join_condition now a) ues.
           (if eventType ue = ''click'' then 1.5 else 1.0) * exp (- (now - createdAt ue) / 43200)) =
        1.5 * (exp (- 300 / 43200) + exp (- 600 / 43200) + exp (- 1800 / 43200) +
               exp (- 3600 / 43200) + exp (- 7200 / 43200))"
    unfolding window window_score_mset assms(3) by simp
  with TrendingArticles_row [OF assms(1,2), of now ues] five_click_score_bounds
  show ?thesis
    by (simp add: article.defs trending_article.defs five_click_score_def)
qed

theorem five_clicks_trending_score_witness:
  "map trending_score (TrendingArticles 100000 [seed_article] (seed_clicks 100000)) =
     [five_click_score]"
proof -
  have pk: "distinct (map a_id [seed_article])" by simp
  have mem: "seed_article \<in> set [seed_article]" by simp
  have evs: "mset (map (\<lambda>ue. (eventType ue, 100000 - createdAt ue))
               (filter (\<lambda>ue. articleId ue = a_id seed_article \<and> 100000 - createdAt ue < 86400)
                  (seed_clicks 100000))) =
         {#(''click'', 300), (''click'', 600), (''click'', 1800), (''click'', 3600), (''click'', 7200)#}"
    by (simp add: seed_clicks_def seed_click_def seed_article_def)
  have all: "filter (\<lambda>r. a_id r = a_id seed_article)
        (TrendingArticles 100000 [seed_article] (seed_clicks 100000)) =
      TrendingArticles 100000 [seed_article] (seed_clicks 100000)"
    by (simp add: TrendingArticles_def left_join_def join_block_def join_condition_def Let_def
        group_row_def seed_clicks_def seed_click_def seed_article_def article.defs)
  from five_clicks_trending_score [OF pk mem evs]
  show ?thesis
    unfolding all by simp
qed

text \<open>
  \<^bold>\<open>C3\<close> (as stated) names the value 7.19. On the seeded rows the score of the view is not
  within 0.1 of 7.19.
\<close>

theorem five_clicks_score_not_7_19:
  "map trending_score (TrendingArticles 100000 [seed_article] (seed_clicks 100000)) =
     [five_click_score] \<and>
   \<not> \<bar>five_click_score - 7.19\<bar> \<le> 0.1"
proof -
  have pk: "distinct (map a_id [seed_article])" by simp
  have mem: "seed_article \<in> set [seed_article]" by simp
  have all: "filter (\<lambda>r. a_id r = a_id seed_article)
        (TrendingArticles 100000 [seed_article] (seed_clicks 100000)) =
      TrendingArticles 100000 [seed_article] (seed_clicks 100000)"
    by (simp add: TrendingArticles_def left_join_def join_block_def join_condition_def Let_def
        group_row_def seed_clicks_def seed_click_def seed_article_def article.defs)
  have "filter (join_condition 100000 seed_article) (seed_clicks 100000) = seed_clicks 100000"
    by (simp add: join_condition_def seed_clicks_def seed_click_def seed_article_def)
  then have "map trending_score (TrendingArticles 100000 [seed_article] (seed_clicks 100000)) =
      [five_click_score]"
    using TrendingArticles_row [OF pk mem, of 100000 "seed_clicks 100000"]
    unfolding all
    by (simp add: seed_clicks_def seed_click_def five_click_score_def article.defs trending_article.defs)
  with five_click_score_bounds show ?thesis
    by simp
qed

section \<open>Blended score\<close>

text \<open>
  \<^bold>\<open>C2.\<close> For a fixed positive trending score the blended score is strictly decreasing in the
  distance, and for a fixed distance it is monotonically increasing in the trending score
  (strictly, when the score strictly increases). The scores and the distance are real
  numbers: the statement is about the formula, not about its rounding in double precision.
\<close>

theorem blended_score_monotone:
  "(0 < t \<and> d1 < d2 \<longrightarrow> blended_score t d2 < blended_score t d1) \<and>
   (t1 \<le> t2 \<longrightarrow> blended_score t1 d \<le> blended_score t2 d) \<and>
   (t1 < t2 \<longrightarrow> blended_score t1 d < blended_score t2 d)"
  by (simp add: blended_score_def)

theorem blended_score_monotone_witness:
  "blended_score 2 50000 < blended_score 2 0 \<and>
   blended_score 1 100 \<le> blended_score 2 100 \<and>
   blended_score 1 100 < blended_score 2 100"
  using blended_score_monotone [of 2 0 50000 1 2 100] by simp

section \<open>Geo bucketer\<close>

lemma digit_value_digit_char: "d < 10 \<Longrightarrow> digit_value (digit_char d) = Some d"
proof -
  assume "d < 10"
  then consider "d = 0" | "d = 1" | "d = 2" | "d = 3" | "d = 4" | "d = 5" | "d = 6" | "d = 7"
    | "d = 8" | "d = 9"
    by atomize_elim arith
  then show ?thesis
    by cases (simp_all add: digit_value_def digit_char_def)
qed

lemma digit_value_dot: "digit_value CHR ''.'' = None"
  by (simp add: digit_value_def)

lemma digit_value_minus: "digit_value CHR ''-'' = None"
  by (simp add: digit_value_def)

lemma value_from_append:
  "value_from acc (xs @ ys) =
     (case value_from acc xs of None \<Rightarrow> None | Some a \<Rightarrow> value_from a ys)"
  by (induction xs arbitrary: acc) (simp_all split: option.splits)

lemma value_from_shift:
  "value_from acc ys =
     (case value_from 0 ys of None \<Rightarrow> None | Some b \<Rightarrow> Some (acc * 10 ^ length ys + b))"
proof (induction ys arbitrary: acc)
  case Nil
  then show ?case by simp
next
  case (Cons c cs)
  show ?case
  proof (cases "digit_value c")
    case None
    then show ?thesis by simp
  next
    case (Some d)
    show ?thesis
      using Cons.IH [of "10 * acc + d"] Cons.IH [of d] Some
      by (simp add: algebra_simps split: option.splits)
  qed
qed

lemma value_from_digits: "value_from 0 (digits n) = Some n"
proof (induction n rule: digits.induct)
  case (1 n)
  show ?case
  proof (cases "n < 10")
    case True
    then show ?thesis
      by (subst digits.simps) (simp add: digit_value_digit_char)
  next
    case False
    with 1 have "value_from 0 (digits (n div 10)) = Some (n div 10)" by simp
    with False show ?thesis
      by (subst digits.simps) (simp add: value_from_append digit_value_digit_char)
  qed
qed

lemma digits_nonempty: "digits n \<noteq> []"
  by (subst digits.simps) simp

lemma value_from_zeros: "value_from 0 (replicate z CHR ''0'') = Some 0"
  by (induction z) (simp_all add: digit_value_def)

lemma value_from_all_digits:
  "value_from acc xs = Some r \<Longrightarrow> c \<in> set xs \<Longrightarrow> digit_value c \<noteq> None"
  by (induction xs arbitrary: acc) (auto split: option.splits)

lemma takeWhile_until: "\<forall>x \<in> set xs. P x \<Longrightarrow> \<not> P y \<Longrightarrow> takeWhile P (xs @ y # ys) = xs"
  by (induction xs) simp_all

lemma dropWhile_until: "\<forall>x \<in> set xs. P x \<Longrightarrow> \<not> P y \<Longrightarrow> dropWhile P (xs @ y # ys) = y # ys"
  by (induction xs) simp_all

text \<open>The shape of the digits \<^const>\<open>toFixed\<close> writes: an integer part and \<open>f\<close> fraction digits.\<close>

lemma fixed_digits_shape:
  obtains a b A B where
    "fixed_digits n f = a @ (if f = 0 then [] else CHR ''.'' # b)"
    "a \<noteq> []" "value_from 0 a = Some A" "value_from 0 b = Some B"
    "length b = f" "n = A * 10 ^ f + B"
proof (cases "f = 0")
  case True
  show ?thesis
  proof (rule that [of "digits n" "[]" n 0])
    show "fixed_digits n f = digits n @ (if f = 0 then [] else CHR ''.'' # [])"
      using True by (simp add: fixed_digits_def)
  qed (simp_all add: True digits_nonempty value_from_digits)
next
  case False
  define m where "m = (if length (digits n) \<le> f
    then replicate (f + 1 - length (digits n)) CHR ''0'' @ digits n else digits n)"
  define k where "k = (if length (digits n) \<le> f then f + 1 else length (digits n))"
  have len: "length m = k"
    by (simp add: m_def k_def)
  have kf: "f < k"
    by (simp add: k_def)
  have val: "value_from 0 m = Some n"
    by (simp add: m_def value_from_append value_from_zeros value_from_digits)
  have fd: "fixed_digits n f = take (k - f) m @ CHR ''.'' # drop (k - f) m"
    using False by (simp add: fixed_digits_def Let_def m_def k_def)
  have "value_from 0 (take (k - f) m @ drop (k - f) m) = Some n"
    using val by simp
  then obtain A where A: "value_from 0 (take (k - f) m) = Some A"
    and rest: "value_from A (drop (k - f) m) = Some n"
    by (auto simp only: value_from_append split: option.splits)
  from rest obtain B where B: "value_from 0 (drop (k - f) m) = Some B"
    and n: "n = A * 10 ^ length (drop (k - f) m) + B"
    by (subst (asm) value_from_shift) (auto split: option.splits)
  have lb: "length (drop (k - f) m) = f"
    using len kf by simp
  show ?thesis
  proof (rule that [of "take (k - f) m" "drop (k - f) m" A B])
    show "fixed_digits n f = take (k - f) m @ (if f = 0 then [] else CHR ''.'' # drop (k - f) m)"
      using fd False by simp
    show "take (k - f) m \<noteq> []"
      using len kf by (cases m) auto
    show "n = A * 10 ^ f + B"
      using n lb by simp
  qed (fact A B lb)+
qed

lemma decimal_value_signed_fixed_digits:
  assumes "sign = ''-'' \<or> sign = []"
  shows "decimal_value (sign @ fixed_digits n f) =
         Some ((if sign = ''-'' then - 1 else 1) * (real n / 10 ^ f), f)"
proof -
  obtain a b A B where shape: "fixed_digits n f = a @ (if f = 0 then [] else CHR ''.'' # b)"
    and a: "a \<noteq> []" and A: "value_from 0 a = Some A" and B: "value_from 0 b = Some B"
    and lb: "length b = f" and n: "n = A * 10 ^ f + B"
    by (rule fixed_digits_shape)
  have nodot: "\<forall>c \<in> set a. c \<noteq> CHR ''.''"
  proof
    fix c
    assume "c \<in> set a"
    with A have "digit_value c \<noteq> None" by (rule value_from_all_digits)
    then show "c \<noteq> CHR ''.''" using digit_value_dot by auto
  qed
  from a obtain c cs where acs: "a = c # cs" by (cases a) auto
  then have "digit_value c \<noteq> None"
    using value_from_all_digits [OF A, of c] by simp
  then have c: "c \<noteq> CHR ''-''"
    using digit_value_minus by auto
  let ?body = "fixed_digits n f"
  have neg: "(take 1 (sign @ ?body) = ''-'') = (sign = ''-'')"
    using assms c by (auto simp: shape acs)
  have body: "(if sign = ''-'' then drop 1 (sign @ ?body) else sign @ ?body) = ?body"
    using assms by auto
  have ip: "takeWhile (\<lambda>c. c \<noteq> CHR ''.'') ?body = a"
    using nodot by (simp add: shape takeWhile_until)
  have fp: "drop 1 (dropWhile (\<lambda>c. c \<noteq> CHR ''.'') ?body) = (if f = 0 then [] else b)"
    using nodot by (simp add: shape dropWhile_until)
  have b0: "f = 0 \<Longrightarrow> b = []"
    using lb by simp
  have "real A + real B / 10 ^ f = real n / 10 ^ f"
    by (simp add: n field_simps)
  then show ?thesis
    unfolding decimal_value_def Let_def neg body ip fp
    using a A B lb b0 by (auto simp: field_simps)
qed

text \<open>
  The integer \<^const>\<open>toFixed\<close> takes is the one ECMAScript describes: no integer \<open>m\<close> has
  \<open>m / 10^f\<close> nearer to \<open>x\<close>, and of two equally near ones it is the larger.
\<close>

lemma toFixed_integer_is_nearest:
  fixes x :: real and f :: nat and m :: int
  defines "n \<equiv> \<lfloor>x * 10 ^ f + 1 / 2\<rfloor>"
  shows "\<bar>of_int n / 10 ^ f - x\<bar> \<le> \<bar>of_int m / 10 ^ f - x\<bar>"
    and "\<bar>of_int n / 10 ^ f - x\<bar> = \<bar>of_int m / 10 ^ f - x\<bar> \<Longrightarrow> m \<le> n"
proof -
  define P :: real where "P = 10 ^ f"
  define y where "y = x * P"
  have P: "0 < P" by (simp add: P_def)
  have lo: "of_int n \<le> y + 1 / 2" unfolding n_def y_def P_def by (rule of_int_floor_le)
  have hi: "y + 1 / 2 < of_int n + 1" unfolding n_def y_def P_def by linarith
  have dist: "\<bar>of_int k / P - x\<bar> = \<bar>of_int k - y\<bar> / P" for k :: int
  proof -
    have "of_int k / P - x = (of_int k - y) / P"
      using P by (simp add: y_def diff_divide_distrib)
    then show ?thesis using P by simp
  qed
  have cmp: "\<bar>of_int n - y\<bar> \<le> \<bar>of_int m - y\<bar>"
  proof (cases "m = n")
    case True
    then show ?thesis by simp
  next
    case False
    then consider "m \<le> n - 1" | "n + 1 \<le> m" by linarith
    then show ?thesis
    proof cases
      case 1
      then have "(of_int m :: real) \<le> of_int n - 1"
        by (metis of_int_1 of_int_diff of_int_le_iff)
      with lo hi show ?thesis by linarith
    next
      case 2
      then have "(of_int n :: real) + 1 \<le> of_int m"
        by (metis of_int_1 of_int_add of_int_le_iff)
      with lo hi show ?thesis by linarith
    qed
  qed
  show "\<bar>of_int n / 10 ^ f - x\<bar> \<le> \<bar>of_int m / 10 ^ f - x\<bar>"
    using cmp P unfolding dist P_def [symmetric] by (simp add: divide_right_mono)
  assume "\<bar>of_int n / 10 ^ f - x\<bar> = \<bar>of_int m / 10 ^ f - x\<bar>"
  then have eq: "\<bar>of_int n - y\<bar> = \<bar>of_int m - y\<bar>"
    using P unfolding dist P_def [symmetric] by simp
  show "m \<le> n"
  proof (rule ccontr)
    assume "\<not> m \<le> n"
    then have "n + 1 \<le> m" by simp
    then have "(of_int n :: real) + 1 \<le> of_int m"
      by (metis of_int_1 of_int_add of_int_le_iff)
    with lo hi eq show False by linarith
  qed
qed

lemma toFixed_rounding:
  fixes x :: real
  shows "rounds_half_away_from_zero x p
           ((if x < 0 then - 1 else 1) * (real (nat \<lfloor>\<bar>x\<bar> * 10 ^ p + 1 / 2\<rfloor>) / 10 ^ p))"
proof -
  define P :: real where "P = 10 ^ p"
  define y where "y = \<bar>x\<bar> * P"
  define n where "n = \<lfloor>y + 1 / 2\<rfloor>"
  define sg :: real where "sg = (if x < 0 then - 1 else 1)"
  define v where "v = sg * (real (nat n) / P)"
  have P: "0 < P" by (simp add: P_def)
  have y: "0 \<le> y" using P by (simp add: y_def)
  have n0: "0 \<le> n" using y by (simp add: n_def)
  then have rn: "real (nat n) = of_int n" by simp
  have lo: "of_int n \<le> y + 1 / 2" unfolding n_def by (rule of_int_floor_le)
  have hi: "y + 1 / 2 < of_int n + 1" unfolding n_def by linarith
  have x: "x = sg * (y / P)" using P by (simp add: sg_def y_def)
  have sg: "\<bar>sg\<bar> = 1" by (simp add: sg_def)
  have vP: "v * P = of_int (if x < 0 then - n else n)"
    using P by (simp add: v_def rn sg_def)
  have integral: "of_int \<lfloor>v * P\<rfloor> = v * P"
    unfolding vP by simp
  have "v - x = sg * ((of_int n - y) / P)"
    by (simp add: v_def rn x algebra_simps diff_divide_distrib)
  then have dist: "\<bar>v - x\<bar> = \<bar>of_int n - y\<bar> / P"
    using P sg by (simp add: abs_mult)
  have near: "\<bar>of_int n - y\<bar> \<le> 1 / 2" using lo hi by linarith
  have close: "\<bar>v - x\<bar> \<le> 1 / (2 * P)"
    unfolding dist using near P by (simp add: field_simps)
  have tie: "\<bar>x\<bar> < \<bar>v\<bar>" if "\<bar>v - x\<bar> = 1 / (2 * P)"
  proof -
    from that have "\<bar>of_int n - y\<bar> = 1 / 2"
      unfolding dist using P by (simp add: field_simps)
    with hi have "y < of_int n" by linarith
    then have "y / P < of_int n / P" using P by (simp add: divide_strict_right_mono)
    moreover have "\<bar>x\<bar> = y / P" using P by (simp add: y_def)
    moreover have "\<bar>v\<bar> = of_int n / P" using P n0 sg by (simp add: v_def rn abs_mult)
    ultimately show ?thesis by simp
  qed
  show ?thesis
    unfolding rounds_half_away_from_zero_def
    using integral close tie
    by (simp add: v_def sg_def n_def y_def P_def)
qed

lemma toFixed_in_range:
  assumes "0 \<le> f" and "f \<le> 100" and "\<bar>x\<bar> < 10 ^ 21"
  shows "\<exists>s. toFixed ns x f = Inr s \<and> fixed_to x (nat f) s"
proof -
  define sign where "sign = (if x < 0 then ''-'' else [])"
  let ?n = "nat \<lfloor>\<bar>x\<bar> * 10 ^ nat f + 1 / 2\<rfloor>"
  have abs: "(if x < 0 then - x else x) = \<bar>x\<bar>" by simp
  have run: "toFixed ns x f = Inr (sign @ fixed_digits ?n (nat f))"
    using assms unfolding toFixed_def Let_def abs sign_def by (simp add: not_le)
  have "decimal_value (sign @ fixed_digits ?n (nat f)) =
        Some ((if sign = ''-'' then - 1 else 1) * (real ?n / 10 ^ nat f), nat f)"
    by (rule decimal_value_signed_fixed_digits) (simp add: sign_def)
  moreover have "(sign = ''-'') = (x < 0)" by (simp add: sign_def)
  ultimately have "fixed_to x (nat f) (sign @ fixed_digits ?n (nat f))"
    using toFixed_rounding [of x "nat f"] by (simp add: fixed_to_def)
  with run show ?thesis by blast
qed

text \<open>
  \<^bold>\<open>C4.\<close> For a precision within the 0..100 digits that \<^verbatim>\<open>toFixed\<close> accepts and coordinates of
  magnitude below \<open>10^21\<close> (every latitude and longitude is), the key is
  \<open>latFixed @ '':'' @ lonFixed\<close>, where \<open>latFixed\<close> and \<open>lonFixed\<close> are the two coordinates fixed
  to the precision: numerals with that many fraction digits whose values are the
  coordinates rounded half away from zero. With the precision omitted the same holds with
  2 digits. The key is a function of the arguments alone: the model reads no state, as the
  source does, so equal inputs give equal keys.
\<close>

theorem getGeospatialCacheKey_fixed:
  assumes "0 \<le> precision" and "precision \<le> 100" and "\<bar>lat\<bar> < 10 ^ 21" and "\<bar>lon\<bar> < 10 ^ 21"
  shows "(\<exists>latFixed lonFixed.
            getGeospatialCacheKey ns lat lon (Some precision) = Inr (latFixed @ '':'' @ lonFixed) \<and>
            fixed_to lat (nat precision) latFixed \<and> fixed_to lon (nat precision) lonFixed) \<and>
         (\<exists>latFixed lonFixed.
            getGeospatialCacheKey ns lat lon None = Inr (latFixed @ '':'' @ lonFixed) \<and>
            fixed_to lat 2 latFixed \<and> fixed_to lon 2 lonFixed)"
proof (rule conjI)
  obtain a b where ab: "toFixed ns lat precision = Inr a" "fixed_to lat (nat precision) a"
    "toFixed ns lon precision = Inr b" "fixed_to lon (nat precision) b"
    using toFixed_in_range [OF assms(1,2,3)] toFixed_in_range [OF assms(1,2,4)] by blast
  then have "getGeospatialCacheKey ns lat lon (Some precision) = Inr (a @ '':'' @ b)"
    by (simp add: getGeospatialCacheKey_def)
  with ab show "\<exists>latFixed lonFixed.
      getGeospatialCacheKey ns lat lon (Some precision) = Inr (latFixed @ '':'' @ lonFixed) \<and>
      fixed_to lat (nat precision) latFixed \<and> fixed_to lon (nat precision) lonFixed"
    by blast
  obtain c d where cd: "toFixed ns lat 2 = Inr c" "fixed_to lat (nat 2) c"
    "toFixed ns lon 2 = Inr d" "fixed_to lon (nat 2) d"
    using toFixed_in_range [of 2 lat ns] toFixed_in_range [of 2 lon ns] assms(3,4) by auto
  then have "getGeospatialCacheKey ns lat lon None = Inr (c @ '':'' @ d)"
    by (simp add: getGeospatialCacheKey_def)
  with cd show "\<exists>latFixed lonFixed.
      getGeospatialCacheKey ns lat lon None = Inr (latFixed @ '':'' @ lonFixed) \<and>
      fixed_to lat 2 latFixed \<and> fixed_to lon 2 lonFixed"
    by auto
qed

theorem getGeospatialCacheKey_fixed_witness:
  "((\<exists>latFixed lonFixed.
       getGeospatialCacheKey (\<lambda>x. []) 21.77 (- 76.075) (Some 2) = Inr (latFixed @ '':'' @ lonFixed) \<and>
       fixed_to 21.77 (nat 2) latFixed \<and> fixed_to (- 76.075) (nat 2) lonFixed) \<and>
    (\<exists>latFixed lonFixed.
       getGeospatialCacheKey (\<lambda>x. []) 21.77 (- 76.075) None = Inr (latFixed @ '':'' @ lonFixed) \<and>
       fixed_to 21.77 2 latFixed \<and> fixed_to (- 76.075) 2 lonFixed)) \<and>
   getGeospatialCacheKey (\<lambda>x. []) 21.77 (- 76.075) None = Inr ''21.77:-76.08''"
proof -
  have h: "(0::int) \<le> 2" "(2::int) \<le> 100" "\<bar>21.77::real\<bar> < 10 ^ 21" "\<bar>- 76.075::real\<bar> < 10 ^ 21"
    by simp_all
  have ev: "getGeospatialCacheKey (\<lambda>x. []) 21.77 (- 76.075) None = Inr ''21.77:-76.08''"
    by (simp add: getGeospatialCacheKey_def toFixed_def fixed_digits_def digits.simps
        digit_char_def Let_def)
  show ?thesis
    using getGeospatialCacheKey_fixed [OF h, of "\<lambda>x. []"] ev by (rule conjI)
qed

text \<open>Outside the range of the theorem \<^const>\<open>toFixed\<close> does not write fixed-point digits.\<close>

lemma toFixed_RangeError: "f < 0 \<or> 100 < f \<Longrightarrow> toFixed ns x f = Inl RangeError"
  by (simp add: toFixed_def)

lemma toFixed_large: "0 \<le> f \<Longrightarrow> f \<le> 100 \<Longrightarrow> 10 ^ 21 \<le> x \<Longrightarrow> toFixed ns x f = Inr (ns x)"
  by (simp add: toFixed_def Let_def not_less)

text \<open>
  A negative coordinate that rounds to zero keeps its sign in the key: the numerals of
  \<open>-0.001\<close> and of \<open>0.001\<close> differ, though both have the value \<open>0\<close>.
\<close>

lemma toFixed_negative_zero:
  "toFixed ns (- 0.001) 2 = Inr ''-0.00'' \<and> toFixed ns 0.001 2 = Inr ''0.00''"
  by (simp add: toFixed_def fixed_digits_def digits.simps digit_char_def Let_def)

section \<open>Cache layer\<close>

lemma await_Inr [simp]: "await (Inr x, s) f = f x s"
  by (simp add: await_def)

lemma await_Inl [simp]: "await (Inl e, s) f = (Inl e, s)"
  by (simp add: await_def)

lemma next_fault_store: "store (snd (next_fault r)) = store r"
  by (simp add: next_fault_def split: list.splits)

lemma next_fault_no_faults: "faults r = [] \<Longrightarrow> next_fault r = (False, r)"
  by (simp add: next_fault_def)

lemma cache_get_cases:
  obtains (miss) s1 where "cache_get now key s = (Inr JNull, s1)"
      "store (cache s1) = store (cache s)" "llm_calls s1 = llm_calls s"
  | (hit) v expiry s1 where "cache_get now key s = (Inr v, s1)"
      "store (cache s) key = Some (v, expiry)" "now < expiry"
      "store (cache s1) = store (cache s)" "llm_calls s1 = llm_calls s"
proof -
  obtain fails r where nf: "next_fault (cache s) = (fails, r)"
    by (cases "next_fault (cache s)")
  then have st: "store r = store (cache s)"
    using next_fault_store [of "cache s"] by simp
  show ?thesis
  proof (cases "fails \<or> (case store r key of None \<Rightarrow> True | Some (v, expiry) \<Rightarrow> \<not> now < expiry)")
    case True
    then have "cache_get now key s = (Inr JNull, s\<lparr>cache := r\<rparr>)"
      by (auto simp: cache_get_def client_get_def nf split: option.splits)
    then show ?thesis
      by (rule miss) (simp_all add: st)
  next
    case False
    then obtain v expiry where e: "store r key = Some (v, expiry)" "now < expiry" "\<not> fails"
      by (auto split: option.splits)
    then have "cache_get now key s = (Inr v, s\<lparr>cache := r\<rparr>)"
      by (simp add: cache_get_def client_get_def nf)
    moreover have "store (cache s) key = Some (v, expiry)"
      using e st by simp
    ultimately show ?thesis
      using e(2) by (rule hit) (simp_all add: st)
  qed
qed

lemma cache_set_cases:
  obtains (dropped) s1 where "cache_set now key v ttl s = (Inr (), s1)"
      "store (cache s1) = store (cache s)" "llm_calls s1 = llm_calls s"
  | (stored) s1 where "cache_set now key v ttl s = (Inr (), s1)"
      "store (cache s1) = (store (cache s))(key \<mapsto> (v, now + real_of_int ttl))"
      "llm_calls s1 = llm_calls s" "0 < ttl"
proof -
  obtain fails r where nf: "next_fault (cache s) = (fails, r)"
    by (cases "next_fault (cache s)")
  then have st: "store r = store (cache s)"
    using next_fault_store [of "cache s"] by simp
  show ?thesis
  proof (cases "fails \<or> ttl \<le> 0")
    case True
    then have "cache_set now key v ttl s = (Inr (), s\<lparr>cache := r\<rparr>)"
      by (auto simp: cache_set_def client_set_def nf)
    then show ?thesis
      by (rule dropped) (simp_all add: st)
  next
    case False
    define s1 where "s1 = s\<lparr>cache := r\<lparr>store := (store r)(key \<mapsto> (v, now + real_of_int ttl))\<rparr>\<rparr>"
    from False have "cache_set now key v ttl s = (Inr (), s1)"
      by (simp add: cache_set_def client_set_def nf s1_def)
    moreover have "store (cache s1) = (store (cache s))(key \<mapsto> (v, now + real_of_int ttl))"
      by (simp add: s1_def st)
    moreover have "llm_calls s1 = llm_calls s"
      by (simp add: s1_def)
    moreover have "0 < ttl"
      using False by simp
    ultimately show ?thesis
      by (rule stored)
  qed
qed

text \<open>
  \<^bold>\<open>C9.\<close> For every key, value, time-to-live and state: if the operation of the Redis client
  fails, \<^verbatim>\<open>get\<close> returns \<^verbatim>\<open>null\<close> and \<^verbatim>\<open>set\<close> completes; and whatever the client does,
  neither \<^verbatim>\<open>get\<close> nor \<^verbatim>\<open>set\<close> throws.
\<close>

theorem cache_failures_are_misses:
  "(fst (client_get now key (cache s)) = Inl e \<longrightarrow> fst (cache_get now key s) = Inr JNull) \<and>
   (fst (client_set now key v ttl (cache s)) = Inl e \<longrightarrow> fst (cache_set now key v ttl s) = Inr ()) \<and>
   (\<forall>e'. fst (cache_get now key s) \<noteq> Inl e') \<and>
   (\<forall>e'. fst (cache_set now key v ttl s) \<noteq> Inl e')"
  by (auto simp: cache_get_def cache_set_def split: prod.splits sum.splits)

theorem cache_failures_are_misses_witness:
  "fst (client_get 1000 ''k'' (cache failing_state)) = Inl (RedisError ''get'') \<and>
   fst (cache_get 1000 ''k'' failing_state) = Inr JNull \<and>
   fst (client_set 1000 ''k'' (JStr ''v'') 300 (cache failing_state)) = Inl (RedisError ''set'') \<and>
   fst (cache_set 1000 ''k'' (JStr ''v'') 300 failing_state) = Inr ()"
  using cache_failures_are_misses [of 1000 "''k''" failing_state "RedisError ''get''"]
    cache_failures_are_misses [of 1000 "''k''" failing_state "RedisError ''set''" "JStr ''v''" 300]
  by (simp add: client_get_def client_set_def next_fault_def failing_state_def)

section \<open>Query resolution\<close>

lemma findMany_length: "length (findMany rows conds n) \<le> n"
  by (simp add: findMany_def)

lemma findBySearchQuery_length:
  "findBySearchQuery ts rows query page limit = Inr (found, n) \<Longrightarrow> length found \<le> nat limit"
  by (auto simp: findBySearchQuery_def Let_def split: if_splits)

lemma query_cache_key_prefix: "take 15 (query_cache_key w query lat lon) = ''query:final-v9:''"
  by (simp add: query_cache_key_def)

lemma summary_key_prefix: "take 15 (''summary:'' @ i) \<noteq> ''query:final-v9:''"
  by simp

lemma bounded_same_store:
  "query_results_bounded r \<Longrightarrow> store r' = store r \<Longrightarrow> query_results_bounded r'"
  by (simp add: query_results_bounded_def)

lemma bounded_other_key:
  "query_results_bounded r \<Longrightarrow> take 15 key \<noteq> ''query:final-v9:'' \<Longrightarrow>
   store r' = (store r)(key \<mapsto> entry) \<Longrightarrow> query_results_bounded r'"
  by (auto simp: query_results_bounded_def)

lemma bounded_small_array:
  "query_results_bounded r \<Longrightarrow> xs \<noteq> [] \<Longrightarrow> length xs \<le> 5 \<Longrightarrow>
   store r' = (store r)(key \<mapsto> (JArr xs, expiry)) \<Longrightarrow> query_results_bounded r'"
  by (auto simp: query_results_bounded_def)

lemma summarize_calls_append:
  "llm_calls s' = llm_calls s @ cs \<Longrightarrow>
   summarize_calls s' = summarize_calls s @
     filter (\<lambda>c. case c of SummarizeText text \<Rightarrow> True | AnalyzeQuery query \<Rightarrow> False) cs"
  by (simp add: summarize_calls_def)

lemma summarize_calls_same: "llm_calls s' = llm_calls s \<Longrightarrow> summarize_calls s' = summarize_calls s"
  by (simp add: summarize_calls_def)

lemma summarizeText_cases:
  obtains summary where
    "summarizeText m d s = (Inr summary, s\<lparr>llm_calls := llm_calls s @ [SummarizeText d]\<rparr>)"
    "summary = (case summary_response m d of Some t \<Rightarrow> t | None \<Rightarrow> ''Summary not available.'')"
  by (cases "summary_response m d") (simp_all add: summarizeText_def)

lemma cache_get_effect:
  assumes "cache_get now key s = (res, s1)"
  shows "(\<exists>v. res = Inr v) \<and> store (cache s1) = store (cache s) \<and> llm_calls s1 = llm_calls s"
  using assms by (cases rule: cache_get_cases [of now key s]) auto

lemma cache_set_effect:
  assumes "cache_set now key v ttl s = (res, s1)"
  shows "res = Inr () \<and> llm_calls s1 = llm_calls s \<and>
         (store (cache s1) = store (cache s) \<or>
          store (cache s1) = (store (cache s))(key \<mapsto> (v, now + real_of_int ttl)))"
  using assms by (cases rule: cache_set_cases [of now key v ttl s]) auto

lemma cache_set_summary_bounded:
  assumes "cache_set now (''summary:'' @ i) v ttl s = (res, s1)"
    and "query_results_bounded (cache s)"
  shows "query_results_bounded (cache s1)"
proof -
  from cache_set_effect [OF assms(1)]
  consider "store (cache s1) = store (cache s)"
    | "store (cache s1) = (store (cache s))(''summary:'' @ i \<mapsto> (v, now + real_of_int ttl))"
    by blast
  then show ?thesis
  proof cases
    case 1
    with assms(2) show ?thesis by (rule bounded_same_store)
  next
    case 2
    from assms(2) summary_key_prefix 2 show ?thesis by (rule bounded_other_key)
  qed
qed

lemma enrich_article_result:
  assumes "enrich_article m now a s = (res, s')"
  shows "(\<exists>obj. res = Inr obj) \<and>
         (query_results_bounded (cache s) \<longrightarrow> query_results_bounded (cache s')) \<and>
         length (summarize_calls s') \<le> length (summarize_calls s) + 1"
proof -
  define key where "key = ''summary:'' @ a_id a"
  have run: "await (cache_get now key s) (\<lambda>cached s1.
        if \<not> truthy cached then
          await (summarizeText m (description a) s1) (\<lambda>text s2.
            await (cache_set now key (JStr text) 86400 s2) (\<lambda>u s3.
              (Inr (JObj (article_json a @ [(''llm_summary'', JStr text)])), s3)))
        else (Inr (JObj (article_json a @ [(''llm_summary'', cached)])), s1)) = (res, s')"
    unfolding key_def using assms by (simp only: enrich_article_def Let_def)
  obtain r1 s1 where get: "cache_get now key s = (r1, s1)"
    by (cases "cache_get now key s")
  from cache_get_effect [OF get] obtain c where c: "r1 = Inr c"
    and st1: "store (cache s1) = store (cache s)" and calls1: "llm_calls s1 = llm_calls s"
    by blast
  show ?thesis
  proof (cases "truthy c")
    case True
    with run get c have "res = Inr (JObj (article_json a @ [(''llm_summary'', c)]))" and "s' = s1"
      by simp_all
    with st1 calls1 show ?thesis
      by (auto intro: bounded_same_store simp: summarize_calls_def)
  next
    case False
    obtain summary where sum: "summarizeText m (description a) s1 =
        (Inr summary, s1\<lparr>llm_calls := llm_calls s1 @ [SummarizeText (description a)]\<rparr>)"
      by (rule summarizeText_cases)
    define s2 where "s2 = s1\<lparr>llm_calls := llm_calls s1 @ [SummarizeText (description a)]\<rparr>"
    obtain r3 s3 where set: "cache_set now key (JStr summary) 86400 s2 = (r3, s3)"
      by (cases "cache_set now key (JStr summary) 86400 s2")
    from cache_set_effect [OF set] have r3: "r3 = Inr ()" and calls3: "llm_calls s3 = llm_calls s2"
      by simp_all
    from run get c False sum set r3
    have "res = Inr (JObj (article_json a @ [(''llm_summary'', JStr summary)]))" and s': "s' = s3"
      by (simp_all add: s2_def [symmetric])
    moreover have "query_results_bounded (cache s3)" if "query_results_bounded (cache s)"
    proof -
      from that st1 have "query_results_bounded (cache s2)"
        by (simp add: s2_def query_results_bounded_def)
      with set show ?thesis
        unfolding key_def by (rule cache_set_summary_bounded)
    qed
    moreover have "length (summarize_calls s3) = length (summarize_calls s) + 1"
      using calls3 calls1 by (simp add: summarize_calls_def s2_def)
    ultimately show ?thesis
      by simp
  qed
qed

lemma enrichArticlesWithSummaries_result:
  "enrichArticlesWithSummaries m now as s = (res, s') \<Longrightarrow>
   (\<exists>objs. res = Inr objs \<and> length objs = length as) \<and>
   (query_results_bounded (cache s) \<longrightarrow> query_results_bounded (cache s')) \<and>
   length (summarize_calls s') \<le> length (summarize_calls s) + length as"
proof (induction as arbitrary: s res s')
  case Nil
  then show ?case by auto
next
  case (Cons a as)
  obtain r1 s1 where one: "enrich_article m now a s = (r1, s1)"
    by (cases "enrich_article m now a s")
  from enrich_article_result [OF one] obtain obj where obj: "r1 = Inr obj"
    and inv1: "query_results_bounded (cache s) \<longrightarrow> query_results_bounded (cache s1)"
    and calls1: "length (summarize_calls s1) \<le> length (summarize_calls s) + 1"
    by blast
  obtain r2 s2 where rest: "enrichArticlesWithSummaries m now as s1 = (r2, s2)"
    by (cases "enrichArticlesWithSummaries m now as s1")
  from Cons.IH [OF rest] obtain objs where objs: "r2 = Inr objs" "length objs = length as"
    and inv2: "query_results_bounded (cache s1) \<longrightarrow> query_results_bounded (cache s2)"
    and calls2: "length (summarize_calls s2) \<le> length (summarize_calls s1) + length as"
    by blast
  from Cons.prems one obj rest objs have "res = Inr (obj # objs)" and "s' = s2"
    by simp_all
  with objs inv1 inv2 calls1 calls2 show ?case
    by auto
qed

lemma find_articles_length: "find_articles w query an = Inr found \<Longrightarrow> length found \<le> 5"
  using findMany_length [of "table_rows w" _ 5]
  by (auto simp: find_articles_def Let_def split: if_splits sum.splits dest: findBySearchQuery_length)

lemma formatArticles_length: "length (formatArticles xs) = length xs"
  by (simp add: formatArticles_def)

lemma analyzeQuery_cases:
  obtains (failed) "analyzeQuery m q s =
      (Inl (Error ''Failed to analyze query''), s\<lparr>llm_calls := llm_calls s @ [AnalyzeQuery q]\<rparr>)"
      "analysis_response m q = None"
  | (answered) an where "analyzeQuery m q s = (Inr an, s\<lparr>llm_calls := llm_calls s @ [AnalyzeQuery q]\<rparr>)"
      "analysis_response m q = Some an"
  by (cases "analysis_response m q") (simp_all add: analyzeQuery_def)

text \<open>A request that is not served from the cache and finds nothing.\<close>

lemma no_match_run:
  assumes get: "cache_get (instant w) (query_cache_key w query lat lon) s = (Inr c, s1)"
    and miss: "\<not> truthy c"
    and an: "analysis_response (gemini w) query = Some an"
    and none: "find_articles w query an = Inr []"
  shows "processNaturalLanguageQuery w query lat lon s =
         (Inr (JArr []), s1\<lparr>llm_calls := llm_calls s1 @ [AnalyzeQuery query]\<rparr>)"
  using assms by (simp add: processNaturalLanguageQuery_def analyzeQuery_def)

lemma find_articles_none:
  assumes "analysis_keywords an = None \<or>
           (\<exists>kws. analysis_keywords an = Some kws \<and> findMany (table_rows w) (searchConditions kws) 5 = [])"
    and "findBySearchQuery (fts w) (table_rows w) query 1 5 = Inr ([], n)"
  shows "find_articles w query an = Inr []"
  using assms by (auto simp: find_articles_def)

lemma trending_key_prefix: "take 15 (''trending:'' @ geoKey) \<noteq> ''query:final-v9:''"
  by simp

lemma cache_set_other_prefix_bounded:
  assumes "cache_set now key v ttl s = (res, s1)"
    and "take 15 key \<noteq> ''query:final-v9:''"
    and "query_results_bounded (cache s)"
  shows "query_results_bounded (cache s1)"
proof -
  from cache_set_effect [OF assms(1)]
  consider "store (cache s1) = store (cache s)"
    | "store (cache s1) = (store (cache s))(key \<mapsto> (v, now + real_of_int ttl))"
    by blast
  then show ?thesis
  proof cases
    case 1
    with assms(3) show ?thesis by (rule bounded_same_store)
  next
    case 2
    from assms(3,2) 2 show ?thesis by (rule bounded_other_key)
  qed
qed

lemmas service_defs =
  processNaturalLanguageQuery_def query_cache_key_def template_def cache_get_def cache_set_def
  client_get_def client_set_def next_fault_def analyzeQuery_def summarizeText_def
  find_articles_def findMany_def searchConditions_def contains_insensitive_def to_lower_def
  findBySearchQuery_def trim_def is_space_def split_ws.simps enrich_article_def
  formatArticles_def article_json_def Let_def

lemmas example_defs =
  empty_state_def failing_state_def example_article_def no_text_search_def
  six_articles_world_def no_match_world_def failing_model_def working_model_def

text \<open>The request from the searches on, and from the analysis on.\<close>

lemma resolve_found_result:
  assumes inv: "query_results_bounded (cache s2)"
    and run: "await (find_articles w query an, s2) (\<lambda>found s3.
          if found = [] then (Inr (JArr []), s3)
          else
            await (enrichArticlesWithSummaries (gemini w) (instant w) (formatArticles found) s3)
              (\<lambda>enrichedArticles s4.
                 await (cache_set (instant w) key (JArr enrichedArticles) 3600 s4)
                   (\<lambda>u s5. (Inr (JArr enrichedArticles), s5)))) = (res, s')"
  shows "(\<forall>result. res = Inr result \<longrightarrow> (\<exists>xs. result = JArr xs \<and> length xs \<le> 5)) \<and>
         query_results_bounded (cache s') \<and>
         length (summarize_calls s') \<le> length (summarize_calls s2) + 5"
proof (cases "find_articles w query an")
  case (Inl e)
  with run have "res = Inl e" and "s' = s2" by simp_all
  with inv show ?thesis by simp
next
  case (Inr found)
  then have len: "length found \<le> 5" by (rule find_articles_length)
  show ?thesis
  proof (cases "found = []")
    case True
    with run Inr have "res = Inr (JArr [])" and "s' = s2"
      by simp_all
    with inv show ?thesis by simp
  next
    case False
    obtain r4 s4 where enrich:
      "enrichArticlesWithSummaries (gemini w) (instant w) (formatArticles found) s2 = (r4, s4)"
      by (cases "enrichArticlesWithSummaries (gemini w) (instant w) (formatArticles found) s2")
    from enrichArticlesWithSummaries_result [OF enrich] inv
    obtain objs where r4: "r4 = Inr objs" and same_length: "length objs = length found"
      and inv4: "query_results_bounded (cache s4)"
      and calls: "length (summarize_calls s4) \<le> length (summarize_calls s2) + length found"
      by (auto simp: formatArticles_length)
    have objs: "r4 = Inr objs" "length objs \<le> 5" "objs \<noteq> []"
      using r4 same_length len False by auto
    have calls4: "length (summarize_calls s4) \<le> length (summarize_calls s2) + 5"
      using calls len by simp
    obtain r5 s5 where set: "cache_set (instant w) key (JArr objs) 3600 s4 = (r5, s5)"
      by (cases "cache_set (instant w) key (JArr objs) 3600 s4")
    from cache_set_effect [OF set] have r5: "r5 = Inr ()"
      and calls5: "llm_calls s5 = llm_calls s4"
      and st5: "store (cache s5) = store (cache s4) \<or>
          store (cache s5) = (store (cache s4))(key \<mapsto> (JArr objs, instant w + real_of_int 3600))"
      by simp_all
    from run Inr False enrich objs set r5
    have "res = Inr (JArr objs)" and "s' = s5"
      by simp_all
    moreover have "query_results_bounded (cache s5)"
      using st5 inv4 objs(2,3) by (auto intro: bounded_same_store bounded_small_array)
    moreover have "summarize_calls s5 = summarize_calls s4"
      using calls5 by (rule summarize_calls_same)
    ultimately show ?thesis
      using objs(2) calls4 by simp
  qed
qed

lemma resolve_analysis_result:
  assumes inv: "query_results_bounded (cache s1)"
    and run: "await (analyzeQuery (gemini w) query s1) (\<lambda>analysis s2.
        await (find_articles w query analysis, s2) (\<lambda>found s3.
          if found = [] then (Inr (JArr []), s3)
          else
            await (enrichArticlesWithSummaries (gemini w) (instant w) (formatArticles found) s3)
              (\<lambda>enrichedArticles s4.
                 await (cache_set (instant w) key (JArr enrichedArticles) 3600 s4)
                   (\<lambda>u s5. (Inr (JArr enrichedArticles), s5))))) = (res, s')"
  shows "(\<forall>result. res = Inr result \<longrightarrow> (\<exists>xs. result = JArr xs \<and> length xs \<le> 5)) \<and>
         query_results_bounded (cache s') \<and>
         length (summarize_calls s') \<le> length (summarize_calls s1) + 5"
proof (cases rule: analyzeQuery_cases [of "gemini w" query s1])
  case failed
  with run have "res = Inl (Error ''Failed to analyze query'')"
    and "s' = s1\<lparr>llm_calls := llm_calls s1 @ [AnalyzeQuery query]\<rparr>"
    by simp_all
  with inv show ?thesis
    by (simp add: query_results_bounded_def summarize_calls_def)
next
  case (answered an)
  define s2 where "s2 = s1\<lparr>llm_calls := llm_calls s1 @ [AnalyzeQuery query]\<rparr>"
  have inv2: "query_results_bounded (cache s2)"
    using inv by (simp add: s2_def query_results_bounded_def)
  have calls2: "summarize_calls s2 = summarize_calls s1"
    by (simp add: s2_def summarize_calls_def)
  from run have "await (find_articles w query an, s2) (\<lambda>found s3.
          if found = [] then (Inr (JArr []), s3)
          else
            await (enrichArticlesWithSummaries (gemini w) (instant w) (formatArticles found) s3)
              (\<lambda>enrichedArticles s4.
                 await (cache_set (instant w) key (JArr enrichedArticles) 3600 s4)
                   (\<lambda>u s5. (Inr (JArr enrichedArticles), s5)))) = (res, s')"
    unfolding s2_def by (simp only: answered(1) await_Inr)
  from resolve_found_result [OF inv2 this] calls2 show ?thesis
    by simp
qed

lemma request_result:
  assumes inv: "query_results_bounded (cache s)"
    and run: "processNaturalLanguageQuery w query lat lon s = (res, s')"
  shows "(\<forall>result. res = Inr result \<longrightarrow> (\<exists>xs. result = JArr xs \<and> length xs \<le> 5)) \<and>
         query_results_bounded (cache s') \<and>
         length (summarize_calls s') \<le> length (summarize_calls s) + 5"
proof -
  define key where "key = query_cache_key w query lat lon"
  have prefix: "take 15 key = ''query:final-v9:''"
    unfolding key_def by (rule query_cache_key_prefix)
  have run': "await (cache_get (instant w) key s) (\<lambda>cachedResult s1.
        if truthy cachedResult then (Inr cachedResult, s1)
        else
          await (analyzeQuery (gemini w) query s1) (\<lambda>analysis s2.
            await (find_articles w query analysis, s2) (\<lambda>found s3.
              if found = [] then (Inr (JArr []), s3)
              else
                await (enrichArticlesWithSummaries (gemini w) (instant w) (formatArticles found) s3)
                  (\<lambda>enrichedArticles s4.
                     await (cache_set (instant w) key (JArr enrichedArticles) 3600 s4)
                       (\<lambda>u s5. (Inr (JArr enrichedArticles), s5)))))) = (res, s')"
    unfolding key_def using run by (simp only: processNaturalLanguageQuery_def Let_def)
  obtain r1 s1 where get: "cache_get (instant w) key s = (r1, s1)"
    by (cases "cache_get (instant w) key s")
  from cache_get_effect [OF get] obtain c where c: "r1 = Inr c"
    and st1: "store (cache s1) = store (cache s)" and calls1: "llm_calls s1 = llm_calls s"
    by blast
  have inv1: "query_results_bounded (cache s1)"
    using inv st1 by (rule bounded_same_store)
  have same_calls: "summarize_calls s1 = summarize_calls s"
    using calls1 by (rule summarize_calls_same)
  show ?thesis
  proof (cases "truthy c")
    case True
    with run' get c have res: "res = Inr c" "s' = s1"
      by simp_all
    have "\<exists>xs. c = JArr xs \<and> length xs \<le> 5"
    proof (cases rule: cache_get_cases [of "instant w" key s])
      case (miss t)
      with get c True show ?thesis by simp
    next
      case (hit v expiry t)
      with get c have "store (cache s) key = Some (c, expiry)" by simp
      with inv prefix show ?thesis
        unfolding query_results_bounded_def by blast
    qed
    with res inv1 same_calls show ?thesis by simp
  next
    case False
    from run' have "await (analyzeQuery (gemini w) query s1) (\<lambda>analysis s2.
        await (find_articles w query analysis, s2) (\<lambda>found s3.
          if found = [] then (Inr (JArr []), s3)
          else
            await (enrichArticlesWithSummaries (gemini w) (instant w) (formatArticles found) s3)
              (\<lambda>enrichedArticles s4.
                 await (cache_set (instant w) key (JArr enrichedArticles) 3600 s4)
                   (\<lambda>u s5. (Inr (JArr enrichedArticles), s5))))) = (res, s')"
      using False by (simp only: get c await_Inr if_False)
    from resolve_analysis_result [OF inv1 this] same_calls show ?thesis
      by simp
  qed
qed

text \<open>The bound on the cached query results holds in every reachable state.\<close>

lemma reachable_bounded: "reachable s \<Longrightarrow> query_results_bounded (cache s)"
proof (induction rule: reachable.induct)
  case (started fs)
  show ?case by (simp add: query_results_bounded_def)
next
  case (requested s w query lat lon)
  then show ?case
    using request_result [of s w query lat lon] by (metis prod.collapse)
next
  case (looked_up s t key)
  then show ?case
    using cache_get_effect [of t key s] bounded_same_store by (metis prod.collapse)
next
  case (written s key t v ttl)
  then show ?case
    using cache_set_other_prefix_bounded [of t key v ttl s] by (metis prod.collapse)
next
  case (rescheduled s fs)
  then show ?case by (simp add: query_results_bounded_def)
qed

text \<open>
  \<^bold>\<open>C6.\<close> In every state the service can reach, whatever the query, the answer of the
  analysis and the faults of the cache, a request that returns, returns an array of at most
  five articles. (A result served from the cache is one an earlier request stored: the
  entries under the query prefix are arrays of at most five elements in every reachable
  state.) The keyword search and the full-text search are each cut at five rows, and the
  request asks the model for at most five summaries.
\<close>

theorem at_most_five_articles:
  assumes "reachable s"
    and "processNaturalLanguageQuery w query lat lon s = (Inr result, s')"
  shows "(\<exists>xs. result = JArr xs \<and> length xs \<le> 5) \<and>
         length (summarize_calls s') \<le> length (summarize_calls s) + 5 \<and>
         length (findMany (table_rows w) conds 5) \<le> 5 \<and>
         (\<forall>found n. findBySearchQuery (fts w) (table_rows w) query 1 5 = Inr (found, n) \<longrightarrow>
            length found \<le> 5)"
proof -
  from assms(1) have "query_results_bounded (cache s)"
    by (rule reachable_bounded)
  from request_result [OF this assms(2)]
  have "\<exists>xs. result = JArr xs \<and> length xs \<le> 5"
    and "length (summarize_calls s') \<le> length (summarize_calls s) + 5"
    by simp_all
  moreover have "length (findMany (table_rows w) conds 5) \<le> 5"
    by (rule findMany_length)
  moreover have "\<forall>found n. findBySearchQuery (fts w) (table_rows w) query 1 5 = Inr (found, n) \<longrightarrow>
      length found \<le> 5"
    by (auto dest: findBySearchQuery_length)
  ultimately show ?thesis by blast
qed

lemma reachable_empty_state: "reachable empty_state"
  unfolding empty_state_def by (rule reachable.started)

theorem at_most_five_articles_witness:
  "(\<exists>xs. fst (processNaturalLanguageQuery six_articles_world ''q'' None None empty_state) =
          Inr (JArr xs) \<and> length xs \<le> 5) \<and>
   length (case fst (processNaturalLanguageQuery six_articles_world ''q'' None None empty_state) of
             Inr (JArr xs) \<Rightarrow> xs | _ \<Rightarrow> []) = 5 \<and>
   length (summarize_calls
     (snd (processNaturalLanguageQuery six_articles_world ''q'' None None empty_state))) = 5"
proof -
  let ?run = "processNaturalLanguageQuery six_articles_world ''q'' None None empty_state"
  have "\<exists>r. fst ?run = Inr r"
    by (simp add: service_defs example_defs)
  then obtain r where "?run = (Inr r, snd ?run)"
    by (metis prod.collapse)
  from at_most_five_articles [OF reachable_empty_state this]
  have "\<exists>xs. r = JArr xs \<and> length xs \<le> 5" by blast
  with \<open>?run = (Inr r, snd ?run)\<close>
  have 1: "\<exists>xs. fst ?run = Inr (JArr xs) \<and> length xs \<le> 5"
    by (metis fst_conv)
  have 2: "length (case fst ?run of Inr (JArr xs) \<Rightarrow> xs | _ \<Rightarrow> []) = 5"
    by (simp add: service_defs example_defs)
  have 3: "length (summarize_calls (snd ?run)) = 5"
    by (simp add: service_defs example_defs summarize_calls_def)
  from 1 2 3 show ?thesis by blast
qed

text \<open>
  \<^bold>\<open>C7.\<close> A request that is not served from the cache, whose analysis succeeds, whose keyword
  search finds nothing (or has no keywords to search with) and whose full-text search finds
  nothing, returns the empty array; it does not throw.
\<close>

theorem no_match_returns_empty:
  assumes "cache_get (instant w) (query_cache_key w query lat lon) s = (Inr c, s1)"
    and "\<not> truthy c"
    and "analysis_response (gemini w) query = Some an"
    and "analysis_keywords an = None \<or>
         (\<exists>kws. analysis_keywords an = Some kws \<and>
                findMany (table_rows w) (searchConditions kws) 5 = [])"
    and "findBySearchQuery (fts w) (table_rows w) query 1 5 = Inr ([], n)"
  shows "fst (processNaturalLanguageQuery w query lat lon s) = Inr (JArr [])"
proof -
  have "find_articles w query an = Inr []"
    using assms(4,5) by (rule find_articles_none)
  with assms(1-3) show ?thesis
    by (simp add: no_match_run)
qed

theorem no_match_returns_empty_witness:
  "fst (processNaturalLanguageQuery no_match_world ''q'' None None empty_state) = Inr (JArr [])"
proof -
  have 1: "cache_get (instant no_match_world) (query_cache_key no_match_world ''q'' None None)
      empty_state = (Inr JNull, empty_state)"
    by (simp add: cache_get_def client_get_def next_fault_def example_defs)
  have 2: "\<not> truthy JNull" by simp
  have 3: "analysis_response (gemini no_match_world) ''q'' =
      Some \<lparr>intent = [''search''], entities = [], analysis_keywords = Some [''xyz'']\<rparr>"
    by (simp add: example_defs)
  have 4: "analysis_keywords \<lparr>intent = [''search''], entities = [], analysis_keywords = Some [''xyz'']\<rparr> = None \<or>
      (\<exists>kws. analysis_keywords \<lparr>intent = [''search''], entities = [], analysis_keywords = Some [''xyz'']\<rparr> = Some kws \<and>
         findMany (table_rows no_match_world) (searchConditions kws) 5 = [])"
    by (simp add: service_defs example_defs)
  have 5: "findBySearchQuery (fts no_match_world) (table_rows no_match_world) ''q'' 1 5 = Inr ([], 0)"
    by (simp add: service_defs example_defs)
  from no_match_returns_empty [OF 1 2 3 4 5] show ?thesis .
qed

text \<open>
  Two ways in which a request that is not served from the cache throws: the analysis fails, or
  the keyword search finds nothing and the database rejects the text of the full-text
  query.
\<close>

lemma analysis_failure_throws:
  assumes "cache_get (instant w) (query_cache_key w query lat lon) s = (Inr c, s1)"
    and "\<not> truthy c"
    and "analysis_response (gemini w) query = None"
  shows "fst (processNaturalLanguageQuery w query lat lon s) = Inl (Error ''Failed to analyze query'')"
  using assms by (simp add: processNaturalLanguageQuery_def analyzeQuery_def)

lemma rejected_tsquery_throws:
  assumes "cache_get (instant w) (query_cache_key w query lat lon) s = (Inr c, s1)"
    and "\<not> truthy c"
    and "analysis_response (gemini w) query = Some an"
    and "analysis_keywords an = None \<or>
         (\<exists>kws. analysis_keywords an = Some kws \<and>
                findMany (table_rows w) (searchConditions kws) 5 = [])"
    and "\<not> tsquery_ok (fts w) (join '' & '' (split_ws (trim query)))"
  shows "fst (processNaturalLanguageQuery w query lat lon s) =
         Inl (DatabaseError ''syntax error in tsquery'')"
proof -
  have "find_articles w query an = Inl (DatabaseError ''syntax error in tsquery'')"
    using assms(4,5) by (auto simp: find_articles_def findBySearchQuery_def)
  with assms(1-3) show ?thesis
    by (simp add: processNaturalLanguageQuery_def analyzeQuery_def)
qed

section \<open>Summaries\<close>









text \<open>What one article is returned with, by what its lookup yields.\<close>

lemma enrich_article_unfold:
  "enrich_article m now a s =
     await (cache_get now (''summary:'' @ a_id a) s) (\<lambda>cached s1.
        if \<not> truthy cached then
          await (summarizeText m (description a) s1) (\<lambda>text s2.
            await (cache_set now (''summary:'' @ a_id a) (JStr text) 86400 s2) (\<lambda>u s3.
              (Inr (with_summary a (JStr text)), s3)))
        else (Inr (with_summary a cached), s1))"
  by (simp only: enrich_article_def Let_def)

lemma enrich_article_falsy:
  assumes get: "cache_get now (''summary:'' @ a_id a) s = (Inr c, s1)" and falsy: "\<not> truthy c"
  shows "enrich_article m now a s =
     (Inr (with_summary a (JStr (case summary_response m (description a) of Some t \<Rightarrow> t
                                  | None \<Rightarrow> ''Summary not available.''))),
      snd (cache_set now (''summary:'' @ a_id a)
             (JStr (case summary_response m (description a) of Some t \<Rightarrow> t
                    | None \<Rightarrow> ''Summary not available.'')) 86400
             (s1\<lparr>llm_calls := llm_calls s1 @ [SummarizeText (description a)]\<rparr>)))"
proof -
  define key where "key = ''summary:'' @ a_id a"
  define summary where "summary = (case summary_response m (description a) of Some t \<Rightarrow> t
                             | None \<Rightarrow> ''Summary not available.'')"
  define s2 where "s2 = s1\<lparr>llm_calls := llm_calls s1 @ [SummarizeText (description a)]\<rparr>"
  have sum: "summarizeText m (description a) s1 = (Inr summary, s2)"
    unfolding summary_def s2_def by (cases "summary_response m (description a)") (simp_all add: summarizeText_def)
  obtain r3 s3 where set: "cache_set now key (JStr summary) 86400 s2 = (r3, s3)"
    by (cases "cache_set now key (JStr summary) 86400 s2")
  from cache_set_effect [OF set] have r3: "r3 = Inr ()" by simp
  have "enrich_article m now a s = (Inr (with_summary a (JStr summary)), s3)"
    unfolding enrich_article_unfold key_def [symmetric]
    using get [folded key_def] falsy sum set r3 by simp
  with set show ?thesis
    unfolding key_def summary_def s2_def by simp
qed

lemma enrich_article_truthy:
  assumes get: "cache_get now (''summary:'' @ a_id a) s = (Inr c, s1)" and "truthy c"
  shows "enrich_article m now a s = (Inr (with_summary a c), s1)"
proof -
  define key where "key = ''summary:'' @ a_id a"
  show ?thesis
    unfolding enrich_article_unfold key_def [symmetric]
    using get [folded key_def] assms(2) by simp
qed













text \<open>A request that is not served from the cache and finds articles.\<close>

lemma found_run:
  assumes get: "cache_get (instant w) (query_cache_key w query lat lon) s = (Inr c, s1)"
    and miss: "\<not> truthy c"
    and an: "analysis_response (gemini w) query = Some an"
    and found: "find_articles w query an = Inr found" "found \<noteq> []"
    and enriched: "enrichArticlesWithSummaries (gemini w) (instant w) (formatArticles found)
        (s1\<lparr>llm_calls := llm_calls s1 @ [AnalyzeQuery query]\<rparr>) = (Inr objs, s4)"
  shows "processNaturalLanguageQuery w query lat lon s =
     (Inr (JArr objs), snd (cache_set (instant w) (query_cache_key w query lat lon) (JArr objs) 3600 s4))"
proof -
  define key where "key = query_cache_key w query lat lon"
  obtain r5 s5 where set: "cache_set (instant w) key (JArr objs) 3600 s4 = (r5, s5)"
    by (cases "cache_set (instant w) key (JArr objs) 3600 s4")
  from cache_set_effect [OF set] have "r5 = Inr ()" by simp
  with set get miss an found enriched show ?thesis
    unfolding processNaturalLanguageQuery_def Let_def key_def [symmetric]
    by (simp add: analyzeQuery_def)
qed

lemma summary_key_not_query_key: "''summary:'' @ i \<noteq> query_cache_key w query lat lon"
  by (simp add: query_cache_key_def)










section \<open>Empty results\<close>

text \<open>What enriching articles leaves as it was: the calls made before, and the query results.\<close>

lemma enrich_article_frame:
  "(\<exists>cs. llm_calls (snd (enrich_article m now a s)) = llm_calls s @ cs) \<and>
   store (cache (snd (enrich_article m now a s))) (query_cache_key w query lat lon) =
     store (cache s) (query_cache_key w query lat lon)"
proof -
  define key where "key = ''summary:'' @ a_id a"
  have differ: "key \<noteq> query_cache_key w query lat lon"
    unfolding key_def by (rule summary_key_not_query_key)
  obtain r1 s1 where get: "cache_get now key s = (r1, s1)"
    by (cases "cache_get now key s")
  from cache_get_effect [OF get] obtain c where c: "r1 = Inr c"
    and st1: "store (cache s1) = store (cache s)" and calls1: "llm_calls s1 = llm_calls s"
    by blast
  show ?thesis
  proof (cases "truthy c")
    case True
    with get c have "enrich_article m now a s = (Inr (with_summary a c), s1)"
      unfolding key_def by (simp add: enrich_article_truthy)
    with st1 calls1 show ?thesis by simp
  next
    case False
    define summary where "summary = (case summary_response m (description a) of Some t \<Rightarrow> t
                                     | None \<Rightarrow> ''Summary not available.'')"
    define s2 where "s2 = s1\<lparr>llm_calls := llm_calls s1 @ [SummarizeText (description a)]\<rparr>"
    obtain r3 s3 where set: "cache_set now key (JStr summary) 86400 s2 = (r3, s3)"
      by (cases "cache_set now key (JStr summary) 86400 s2")
    from cache_set_effect [OF set] have calls3: "llm_calls s3 = llm_calls s2"
      and st3: "store (cache s3) = store (cache s2) \<or>
        store (cache s3) = (store (cache s2))(key \<mapsto> (JStr summary, now + real_of_int 86400))"
      by simp_all
    note get' = get [unfolded c key_def]
    have "enrich_article m now a s = (Inr (with_summary a (JStr summary)), s3)"
      unfolding enrich_article_falsy [OF get' False] summary_def [symmetric] s2_def [symmetric]
        key_def [symmetric] set by simp
    moreover have "llm_calls s3 = llm_calls s @ [SummarizeText (description a)]"
      using calls3 calls1 by (simp add: s2_def)
    moreover have "store (cache s3) (query_cache_key w query lat lon) =
        store (cache s) (query_cache_key w query lat lon)"
      using st3 st1 differ by (auto simp: s2_def)
    ultimately show ?thesis by simp
  qed
qed

lemma enrichArticlesWithSummaries_frame:
  "(\<exists>cs. llm_calls (snd (enrichArticlesWithSummaries m now as s)) = llm_calls s @ cs) \<and>
   store (cache (snd (enrichArticlesWithSummaries m now as s))) (query_cache_key w query lat lon) =
     store (cache s) (query_cache_key w query lat lon)"
proof (induction as arbitrary: s)
  case Nil
  show ?case by simp
next
  case (Cons a as)
  obtain r1 s1 where one: "enrich_article m now a s = (r1, s1)"
    by (cases "enrich_article m now a s")
  from enrich_article_result [OF one] obtain obj where obj: "r1 = Inr obj"
    by blast
  from enrich_article_frame [of m now a s w query lat lon] one
  obtain cs1 where calls1: "llm_calls s1 = llm_calls s @ cs1"
    and st1: "store (cache s1) (query_cache_key w query lat lon) =
      store (cache s) (query_cache_key w query lat lon)"
    by auto
  obtain r2 s2 where rest: "enrichArticlesWithSummaries m now as s1 = (r2, s2)"
    by (cases "enrichArticlesWithSummaries m now as s1")
  from enrichArticlesWithSummaries_result [OF rest] obtain objs where objs: "r2 = Inr objs"
    by blast
  from Cons.IH [of s1] rest
  obtain cs2 where calls2: "llm_calls s2 = llm_calls s1 @ cs2"
    and st2: "store (cache s2) (query_cache_key w query lat lon) =
      store (cache s1) (query_cache_key w query lat lon)"
    by auto
  from one obj rest objs have "enrichArticlesWithSummaries m now (a # as) s = (Inr (obj # objs), s2)"
    by simp
  with calls1 calls2 st1 st2 show ?case by simp
qed

text \<open>The five ways a request ends.\<close>

lemma request_cases:
  obtains (served) c s1 where
      "cache_get (instant w) (query_cache_key w query lat lon) s = (Inr c, s1)" "truthy c"
      "processNaturalLanguageQuery w query lat lon s = (Inr c, s1)"
  | (failed) c s1 where
      "cache_get (instant w) (query_cache_key w query lat lon) s = (Inr c, s1)" "\<not> truthy c"
      "processNaturalLanguageQuery w query lat lon s =
         (Inl (Error ''Failed to analyze query''), s1\<lparr>llm_calls := llm_calls s1 @ [AnalyzeQuery query]\<rparr>)"
  | (rejected) c s1 e where
      "cache_get (instant w) (query_cache_key w query lat lon) s = (Inr c, s1)" "\<not> truthy c"
      "processNaturalLanguageQuery w query lat lon s =
         (Inl e, s1\<lparr>llm_calls := llm_calls s1 @ [AnalyzeQuery query]\<rparr>)"
  | (none_found) c s1 where
      "cache_get (instant w) (query_cache_key w query lat lon) s = (Inr c, s1)" "\<not> truthy c"
      "processNaturalLanguageQuery w query lat lon s =
         (Inr (JArr []), s1\<lparr>llm_calls := llm_calls s1 @ [AnalyzeQuery query]\<rparr>)"
  | (found) c s1 objs s4 where
      "cache_get (instant w) (query_cache_key w query lat lon) s = (Inr c, s1)" "\<not> truthy c"
      "objs \<noteq> []"
      "\<exists>cs. llm_calls s4 = llm_calls s1 @ AnalyzeQuery query # cs"
      "store (cache s4) (query_cache_key w query lat lon) =
         store (cache s1) (query_cache_key w query lat lon)"
      "processNaturalLanguageQuery w query lat lon s =
         (Inr (JArr objs),
          snd (cache_set (instant w) (query_cache_key w query lat lon) (JArr objs) 3600 s4))"
proof -
  define key where "key = query_cache_key w query lat lon"
  obtain r1 s1 where get: "cache_get (instant w) key s = (r1, s1)"
    by (cases "cache_get (instant w) key s")
  from cache_get_effect [OF get] obtain c where c: "r1 = Inr c"
    by blast
  note get = get [unfolded c key_def]
  define s2 where "s2 = s1\<lparr>llm_calls := llm_calls s1 @ [AnalyzeQuery query]\<rparr>"
  show ?thesis
  proof (cases "truthy c")
    case True
    with get have "processNaturalLanguageQuery w query lat lon s = (Inr c, s1)"
      by (simp add: processNaturalLanguageQuery_def)
    with get True show ?thesis by (rule served)
  next
    case False
    show ?thesis
    proof (cases "analysis_response (gemini w) query")
      case None
      with get False have "processNaturalLanguageQuery w query lat lon s =
          (Inl (Error ''Failed to analyze query''), s1\<lparr>llm_calls := llm_calls s1 @ [AnalyzeQuery query]\<rparr>)"
        by (simp add: processNaturalLanguageQuery_def analyzeQuery_def)
      with get False show ?thesis by (rule failed)
    next
      case (Some an)
      show ?thesis
      proof (cases "find_articles w query an")
        case (Inl e)
        with get False Some have "processNaturalLanguageQuery w query lat lon s =
            (Inl e, s1\<lparr>llm_calls := llm_calls s1 @ [AnalyzeQuery query]\<rparr>)"
          by (simp add: processNaturalLanguageQuery_def analyzeQuery_def)
        with get False show ?thesis by (rule rejected)
      next
        case (Inr articles)
        show ?thesis
        proof (cases "articles = []")
          case True
          with get False Some Inr have "processNaturalLanguageQuery w query lat lon s =
              (Inr (JArr []), s1\<lparr>llm_calls := llm_calls s1 @ [AnalyzeQuery query]\<rparr>)"
            by (simp add: no_match_run)
          with get False show ?thesis by (rule none_found)
        next
          case nonempty: False
          obtain r4 s4 where enrich:
            "enrichArticlesWithSummaries (gemini w) (instant w) (formatArticles articles) s2 = (r4, s4)"
            by (cases "enrichArticlesWithSummaries (gemini w) (instant w) (formatArticles articles) s2")
          from enrichArticlesWithSummaries_result [OF enrich]
          obtain objs where r4: "r4 = Inr objs" and len: "length objs = length articles"
            by (auto simp: formatArticles_length)
          from len nonempty have objs: "objs \<noteq> []" by auto
          from enrichArticlesWithSummaries_frame
            [of "gemini w" "instant w" "formatArticles articles" s2 w query lat lon] enrich
          obtain cs where "llm_calls s4 = llm_calls s2 @ cs"
            and st4: "store (cache s4) (query_cache_key w query lat lon) =
              store (cache s2) (query_cache_key w query lat lon)"
            by auto
          then have calls4: "\<exists>cs. llm_calls s4 = llm_calls s1 @ AnalyzeQuery query # cs"
            by (simp add: s2_def)
          from st4 have st4': "store (cache s4) (query_cache_key w query lat lon) =
              store (cache s1) (query_cache_key w query lat lon)"
            by (simp add: s2_def)
          from get False Some Inr nonempty enrich [unfolded r4 s2_def]
          have "processNaturalLanguageQuery w query lat lon s =
             (Inr (JArr objs),
              snd (cache_set (instant w) (query_cache_key w query lat lon) (JArr objs) 3600 s4))"
            by (rule found_run)
          with get False objs calls4 st4' show ?thesis by (rule found)
        qed
      qed
    qed
  qed
qed

text \<open>A request that is not served from the cache asks for the analysis of the query.\<close>

lemma request_not_served:
  assumes "cache_get (instant w) (query_cache_key w query lat lon) s = (Inr c, s1)"
    and "\<not> truthy c"
  shows "\<exists>cs. llm_calls (snd (processNaturalLanguageQuery w query lat lon s)) =
           llm_calls s @ AnalyzeQuery query # cs"
proof -
  from cache_get_effect [OF assms(1)] have calls1: "llm_calls s1 = llm_calls s"
    by simp
  show ?thesis
  proof (cases rule: request_cases [of w query lat lon s])
    case (served c' s1')
    with assms show ?thesis by simp
  next
    case (failed c' s1')
    with assms calls1 show ?thesis by simp
  next
    case (rejected c' s1' e)
    with assms calls1 show ?thesis by simp
  next
    case (none_found c' s1')
    with assms calls1 show ?thesis by simp
  next
    case (found c' s1' objs s4)
    obtain r5 s5 where set:
      "cache_set (instant w) (query_cache_key w query lat lon) (JArr objs) 3600 s4 = (r5, s5)"
      by (cases "cache_set (instant w) (query_cache_key w query lat lon) (JArr objs) 3600 s4")
    from cache_set_effect [OF set] have "llm_calls s5 = llm_calls s4"
      by simp
    with found assms calls1 set show ?thesis by simp
  qed
qed

text \<open>
  What a request does to the entry under its own key: nothing, or it stores the articles
  it returns, at least one, for 3600 seconds.
\<close>

lemma request_entry:
  assumes "processNaturalLanguageQuery w query lat lon s = (res, s')"
  shows "store (cache s') (query_cache_key w query lat lon) =
           store (cache s) (query_cache_key w query lat lon) \<or>
         (\<exists>xs. xs \<noteq> [] \<and> res = Inr (JArr xs) \<and>
            store (cache s') (query_cache_key w query lat lon) = Some (JArr xs, instant w + 3600))"
proof (cases rule: request_cases [of w query lat lon s])
  case (served c s1)
  with assms cache_get_effect [OF served(1)] show ?thesis by auto
next
  case (failed c s1)
  with assms cache_get_effect [OF failed(1)] show ?thesis by auto
next
  case (rejected c s1 e)
  with assms cache_get_effect [OF rejected(1)] show ?thesis by auto
next
  case (none_found c s1)
  with assms cache_get_effect [OF none_found(1)] show ?thesis by auto
next
  case (found c s1 objs s4)
  define key where "key = query_cache_key w query lat lon"
  obtain r5 s5 where set: "cache_set (instant w) key (JArr objs) 3600 s4 = (r5, s5)"
    by (cases "cache_set (instant w) key (JArr objs) 3600 s4")
  from cache_set_effect [OF set]
  have "store (cache s5) = store (cache s4) \<or>
        store (cache s5) = (store (cache s4))(key \<mapsto> (JArr objs, instant w + real_of_int 3600))"
    by simp
  then have "store (cache s5) key = store (cache s4) key \<or>
      store (cache s5) key = Some (JArr objs, instant w + 3600)"
    by auto
  moreover from cache_get_effect [OF found(1)] found(5)
  have "store (cache s4) key = store (cache s) key"
    by (simp add: key_def)
  moreover from assms found(6) set have "res = Inr (JArr objs)" "s' = s5"
    by (simp_all add: key_def)
  ultimately show ?thesis
    using found(3) unfolding key_def [symmetric] by auto
qed

lemma lookup_of_expired:
  assumes "\<forall>v e. store (cache s) key = Some (v, e) \<longrightarrow> e \<le> now"
  shows "\<exists>s1. cache_get now key s = (Inr JNull, s1)"
proof (cases rule: cache_get_cases [of now key s])
  case (miss s1)
  then show ?thesis by blast
next
  case (hit v expiry s1)
  with assms show ?thesis by fastforce
qed

text \<open>
  \<^bold>\<open>C5\<close> (as amended). A request that resolves to no article returns the empty array and
  writes nothing to the cache: the store is as it was before the request, and the analysis
  has been asked once more. If no entry was stored unexpired under the fingerprint of the
  query when the request was made, the same query made later in the state the request
  left, whatever faults lie ahead, is not served from the cache: the analysis is asked
  again. What a request changes under its fingerprint, if anything, is that it stores the
  array it returns, which has at least one article, to expire 3600 seconds later. In every
  state the service can reach, an entry under the fingerprint of a query is an array of one
  to five elements; none is the empty array.
\<close>

theorem empty_result_not_cached:
  "(cache_get (instant w) (query_cache_key w query lat lon) s = (Inr c, s1) \<and> \<not> truthy c \<and>
    analysis_response (gemini w) query = Some an \<and> find_articles w query an = Inr [] \<longrightarrow>
      fst (processNaturalLanguageQuery w query lat lon s) = Inr (JArr []) \<and>
      store (cache (snd (processNaturalLanguageQuery w query lat lon s))) = store (cache s) \<and>
      llm_calls (snd (processNaturalLanguageQuery w query lat lon s)) =
        llm_calls s @ [AnalyzeQuery query]) \<and>
   (cache_get (instant w) (query_cache_key w query lat lon) s = (Inr c, s1) \<and> \<not> truthy c \<and>
    analysis_response (gemini w) query = Some an \<and> find_articles w query an = Inr [] \<and>
    (\<forall>v e. store (cache s) (query_cache_key w query lat lon) = Some (v, e) \<longrightarrow> e \<le> instant w) \<and>
    instant w \<le> instant w' \<and> Number_toString w' = Number_toString w \<longrightarrow>
      (\<exists>cs. llm_calls (snd (processNaturalLanguageQuery w' query lat lon
                 (with_faults fs (snd (processNaturalLanguageQuery w query lat lon s))))) =
             llm_calls (snd (processNaturalLanguageQuery w query lat lon s)) @
               AnalyzeQuery query # cs)) \<and>
   (processNaturalLanguageQuery w query lat lon s = (res, s') \<longrightarrow>
      store (cache s') (query_cache_key w query lat lon) =
        store (cache s) (query_cache_key w query lat lon) \<or>
      (\<exists>xs. xs \<noteq> [] \<and> res = Inr (JArr xs) \<and>
         store (cache s') (query_cache_key w query lat lon) = Some (JArr xs, instant w + 3600))) \<and>
   (reachable s \<and> store (cache s) (query_cache_key w query lat lon) = Some (v, expiry) \<longrightarrow>
      (\<exists>xs. v = JArr xs \<and> xs \<noteq> [] \<and> length xs \<le> 5))"
proof (intro conjI impI)
  assume h: "cache_get (instant w) (query_cache_key w query lat lon) s = (Inr c, s1) \<and> \<not> truthy c \<and>
    analysis_response (gemini w) query = Some an \<and> find_articles w query an = Inr []"
  then have run: "processNaturalLanguageQuery w query lat lon s =
      (Inr (JArr []), s1\<lparr>llm_calls := llm_calls s1 @ [AnalyzeQuery query]\<rparr>)"
    by (simp add: no_match_run)
  from h cache_get_effect [of "instant w" "query_cache_key w query lat lon" s "Inr c" s1]
  have same: "store (cache s1) = store (cache s)" "llm_calls s1 = llm_calls s"
    by simp_all
  show "fst (processNaturalLanguageQuery w query lat lon s) = Inr (JArr [])"
    by (simp add: run)
  show "store (cache (snd (processNaturalLanguageQuery w query lat lon s))) = store (cache s)"
    by (simp add: run same)
  show "llm_calls (snd (processNaturalLanguageQuery w query lat lon s)) =
      llm_calls s @ [AnalyzeQuery query]"
    by (simp add: run same)
next
  assume h: "cache_get (instant w) (query_cache_key w query lat lon) s = (Inr c, s1) \<and> \<not> truthy c \<and>
    analysis_response (gemini w) query = Some an \<and> find_articles w query an = Inr [] \<and>
    (\<forall>v e. store (cache s) (query_cache_key w query lat lon) = Some (v, e) \<longrightarrow> e \<le> instant w) \<and>
    instant w \<le> instant w' \<and> Number_toString w' = Number_toString w"
  define left where "left = snd (processNaturalLanguageQuery w query lat lon s)"
  define s2 where "s2 = with_faults fs left"
  from h have "processNaturalLanguageQuery w query lat lon s =
      (Inr (JArr []), s1\<lparr>llm_calls := llm_calls s1 @ [AnalyzeQuery query]\<rparr>)"
    by (simp add: no_match_run)
  moreover from h cache_get_effect [of "instant w" "query_cache_key w query lat lon" s "Inr c" s1]
  have "store (cache s1) = store (cache s)"
    by simp
  ultimately have st2: "store (cache s2) = store (cache s)" and calls2: "llm_calls s2 = llm_calls left"
    by (simp_all add: s2_def left_def)
  from h have "Number_toString w' = Number_toString w"
    by blast
  then have key: "query_cache_key w' query lat lon = query_cache_key w query lat lon"
    by (simp add: query_cache_key_def template_def split: option.splits)
  have "\<forall>v e. store (cache s2) (query_cache_key w' query lat lon) = Some (v, e) \<longrightarrow> e \<le> instant w'"
    using h unfolding st2 key by fastforce
  then obtain s3 where "cache_get (instant w') (query_cache_key w' query lat lon) s2 = (Inr JNull, s3)"
    using lookup_of_expired by blast
  then have "\<exists>cs. llm_calls (snd (processNaturalLanguageQuery w' query lat lon s2)) =
      llm_calls s2 @ AnalyzeQuery query # cs"
    by (rule request_not_served) simp
  then show "\<exists>cs. llm_calls (snd (processNaturalLanguageQuery w' query lat lon
                 (with_faults fs (snd (processNaturalLanguageQuery w query lat lon s))))) =
             llm_calls (snd (processNaturalLanguageQuery w query lat lon s)) @
               AnalyzeQuery query # cs"
    unfolding calls2 unfolding s2_def left_def .
next
  assume "processNaturalLanguageQuery w query lat lon s = (res, s')"
  then show "store (cache s') (query_cache_key w query lat lon) =
        store (cache s) (query_cache_key w query lat lon) \<or>
      (\<exists>xs. xs \<noteq> [] \<and> res = Inr (JArr xs) \<and>
         store (cache s') (query_cache_key w query lat lon) = Some (JArr xs, instant w + 3600))"
    by (rule request_entry)
next
  assume "reachable s \<and> store (cache s) (query_cache_key w query lat lon) = Some (v, expiry)"
  then have "query_results_bounded (cache s)"
    and "store (cache s) (query_cache_key w query lat lon) = Some (v, expiry)"
    by (simp_all add: reachable_bounded)
  then show "\<exists>xs. v = JArr xs \<and> xs \<noteq> [] \<and> length xs \<le> 5"
    unfolding query_results_bounded_def using query_cache_key_prefix [of w query lat lon]
    by blast
qed

theorem empty_result_not_cached_witness:
  "fst (processNaturalLanguageQuery no_match_world ''q'' None None empty_state) = Inr (JArr []) \<and>
   store (cache (snd (processNaturalLanguageQuery no_match_world ''q'' None None empty_state)))
     (query_cache_key no_match_world ''q'' None None) = None \<and>
   llm_calls (snd (processNaturalLanguageQuery no_match_world ''q'' None None empty_state)) =
     [AnalyzeQuery ''q''] \<and>
   (\<exists>cs. llm_calls (snd (processNaturalLanguageQuery (no_match_world\<lparr>instant := 2000\<rparr>) ''q'' None None
        (with_faults [True]
           (snd (processNaturalLanguageQuery no_match_world ''q'' None None empty_state))))) =
      AnalyzeQuery ''q'' # AnalyzeQuery ''q'' # cs) \<and>
   (\<exists>xs. xs \<noteq> [] \<and>
      fst (processNaturalLanguageQuery six_articles_world ''q'' None None empty_state) = Inr (JArr xs) \<and>
      store (cache (snd (processNaturalLanguageQuery six_articles_world ''q'' None None empty_state)))
        (query_cache_key six_articles_world ''q'' None None) = Some (JArr xs, 4600) \<and>
      length xs \<le> 5)"
proof -
  let ?an = "\<lparr>intent = [''search''], entities = [], analysis_keywords = Some [''xyz'']\<rparr>"
  let ?run = "processNaturalLanguageQuery no_match_world ''q'' None None empty_state"
  let ?six = "processNaturalLanguageQuery six_articles_world ''q'' None None empty_state"
  have h1: "cache_get (instant no_match_world) (query_cache_key no_match_world ''q'' None None)
      empty_state = (Inr JNull, empty_state) \<and> \<not> truthy JNull \<and>
    analysis_response (gemini no_match_world) ''q'' = Some ?an \<and>
    find_articles no_match_world ''q'' ?an = Inr []"
    by (simp add: service_defs example_defs)
  note k1 = empty_result_not_cached [where w = no_match_world and query = "''q''" and lat = None
      and lon = None and s = empty_state and c = JNull and ?s1.0 = empty_state and an = ?an,
      THEN conjunct1, THEN mp, OF h1]
  have h2: "cache_get (instant no_match_world) (query_cache_key no_match_world ''q'' None None)
      empty_state = (Inr JNull, empty_state) \<and> \<not> truthy JNull \<and>
    analysis_response (gemini no_match_world) ''q'' = Some ?an \<and>
    find_articles no_match_world ''q'' ?an = Inr [] \<and>
    (\<forall>v e. store (cache empty_state) (query_cache_key no_match_world ''q'' None None) = Some (v, e) \<longrightarrow>
       e \<le> instant no_match_world) \<and>
    instant no_match_world \<le> instant (no_match_world\<lparr>instant := 2000\<rparr>) \<and>
    Number_toString (no_match_world\<lparr>instant := 2000\<rparr>) = Number_toString no_match_world"
    using h1 by (simp add: example_defs)
  note k2 = empty_result_not_cached [where w = no_match_world and query = "''q''" and lat = None
      and lon = None and s = empty_state and c = JNull and ?s1.0 = empty_state and an = ?an
      and w' = "no_match_world\<lparr>instant := 2000\<rparr>" and fs = "[True]",
      THEN conjunct2, THEN conjunct1, THEN mp, OF h2]
  have h3: "?six = (fst ?six, snd ?six)"
    by simp
  note k3 = empty_result_not_cached [where w = six_articles_world and query = "''q''" and lat = None
      and lon = None and s = empty_state and res = "fst ?six" and s' = "snd ?six",
      THEN conjunct2, THEN conjunct2, THEN conjunct1, THEN mp, OF h3]
  have stored: "store (cache (snd ?six)) (query_cache_key six_articles_world ''q'' None None) \<noteq>
      store (cache empty_state) (query_cache_key six_articles_world ''q'' None None)"
    by (simp add: service_defs example_defs)
  with k3 obtain xs where xs: "xs \<noteq> []" "fst ?six = Inr (JArr xs)"
    "store (cache (snd ?six)) (query_cache_key six_articles_world ''q'' None None) =
       Some (JArr xs, instant six_articles_world + 3600)"
    by blast
  have "reachable (snd ?six)"
    using reachable_empty_state by (rule reachable.requested)
  with xs(3) have h4: "reachable (snd ?six) \<and>
      store (cache (snd ?six)) (query_cache_key six_articles_world ''q'' None None) =
        Some (JArr xs, instant six_articles_world + 3600)"
    by simp
  note k4 = empty_result_not_cached [where w = six_articles_world and query = "''q''" and lat = None
      and lon = None and s = "snd ?six" and v = "JArr xs" and expiry = "instant six_articles_world + 3600",
      THEN conjunct2, THEN conjunct2, THEN conjunct2, THEN mp, OF h4]
  then have len: "length xs \<le> 5"
    by simp
  have a: "fst ?run = Inr (JArr [])"
    by (rule k1 [THEN conjunct1])
  have b: "store (cache (snd ?run)) (query_cache_key no_match_world ''q'' None None) = None"
    unfolding k1 [THEN conjunct2, THEN conjunct1] by (simp add: example_defs)
  have c: "llm_calls (snd ?run) = [AnalyzeQuery ''q'']"
    unfolding k1 [THEN conjunct2, THEN conjunct2] by (simp add: example_defs)
  from k2 have d: "\<exists>cs. llm_calls (snd (processNaturalLanguageQuery (no_match_world\<lparr>instant := 2000\<rparr>)
        ''q'' None None (with_faults [True] (snd ?run)))) = AnalyzeQuery ''q'' # AnalyzeQuery ''q'' # cs"
    unfolding c by simp
  have e: "\<exists>xs. xs \<noteq> [] \<and> fst ?six = Inr (JArr xs) \<and>
      store (cache (snd ?six)) (query_cache_key six_articles_world ''q'' None None) =
        Some (JArr xs, 4600) \<and> length xs \<le> 5"
    using xs len by (auto simp: example_defs)
  from a b c d e show ?thesis
    by (intro conjI)
qed

text \<open>
  \<^bold>\<open>C5\<close> (as stated) has the empty result cached under the fingerprint of the query and served
  to a later identical query. On a working, empty cache it is not: after the request
  nothing is stored under the fingerprint, and the same request made again at once asks the
  analysis again.
\<close>

theorem empty_result_is_recomputed:
  "fst (processNaturalLanguageQuery no_match_world ''q'' None None empty_state) = Inr (JArr []) \<and>
   store (cache (snd (processNaturalLanguageQuery no_match_world ''q'' None None empty_state)))
     (query_cache_key no_match_world ''q'' None None) = None \<and>
   llm_calls (snd (processNaturalLanguageQuery no_match_world ''q'' None None
      (snd (processNaturalLanguageQuery no_match_world ''q'' None None empty_state)))) =
     [AnalyzeQuery ''q'', AnalyzeQuery ''q'']"
  by (simp add: service_defs example_defs)
section \<open>Event recorder\<close>

text \<open>
  \<^bold>\<open>C8.\<close> When the article id of the event, as the database reads it, is the id of no row of
  \<^verbatim>\<open>"Article"\<close> (or cannot be read as a uuid at all), \<^verbatim>\<open>logEvent\<close> and \<^verbatim>\<open>createEvent\<close> fail with
  an error and the database is unchanged: no row of \<^verbatim>\<open>"UserEvent"\<close> is created.
\<close>

theorem unknown_article_rejected:
  assumes "\<forall>article_id. uuid_in (new_articleId event) = Some article_id \<longrightarrow>
             article_id \<notin> set (map a_id (Article db))"
  shows "(\<exists>e. logEvent uuid_in new_id t event db = (Inl e, db)) \<and>
         (\<exists>e. createEvent uuid_in new_id t event db = (Inl e, db))"
  using assms by (auto simp: logEvent_def createEvent_def split: option.splits)

theorem unknown_article_rejected_witness:
  "logEvent Some ''e9'' 1000 unknown_article_event example_database =
     (Inl (DatabaseError ''violates foreign key constraint UserEvent_articleId_fkey''),
      example_database) \<and>
   (\<exists>e. createEvent Some ''e9'' 1000 unknown_article_event example_database =
      (Inl e, example_database))"
proof -
  have h: "\<forall>article_id. Some (new_articleId unknown_article_event) = Some article_id \<longrightarrow>
      article_id \<notin> set (map a_id (Article example_database))"
    by (simp add: unknown_article_event_def example_database_def seed_article_def)
  have "logEvent Some ''e9'' 1000 unknown_article_event example_database =
     (Inl (DatabaseError ''violates foreign key constraint UserEvent_articleId_fkey''),
      example_database)"
    by (simp add: logEvent_def unknown_article_event_def example_database_def seed_article_def)
  with unknown_article_rejected [of Some unknown_article_event example_database "''e9''" 1000, OF h]
  show ?thesis by blast
qed

lemma known_article_recorded:
  assumes "uuid_in (new_articleId event) = Some article_id"
    and "article_id \<in> set (map a_id (Article db))"
    and "new_id \<notin> set (map ue_id (UserEvent db))"
  shows "logEvent uuid_in new_id t event db =
     (Inr (), db\<lparr>UserEvent := UserEvent db @
        [\<lparr>ue_id = new_id, eventType = new_eventType event, createdAt = t,
          articleId = article_id, userId = new_userId event,
          ue_latitude = new_latitude event, ue_longitude = new_longitude event\<rparr>]\<rparr>)"
  using assms by (simp add: logEvent_def)

end
